theory Spec2Isabelle
  imports Main "HOL-Library.While_Combinator"
begin

section \<open>Python values and strings\<close>

text \<open>
  A Python \<open>str\<close> is a sequence of code points. It is modelled as a \<open>string\<close> whose
  characters are the code points U+0000 .. U+00FF (one \<open>char\<close> per code point, Latin-1);
  the section sign of the section pattern is \<open>CHR 0xA7\<close>. Python integers are
  unbounded: \<open>int\<close>. The values stored in the dictionaries of the program are integers,
  strings and \<open>None\<close>.
\<close>

datatype py_value = PyNone | PyInt int | PyStr string

text \<open>A \<open>dict\<close> with string keys, in insertion order.\<close>

type_synonym py_dict = "(string \<times> py_value) list"

subsection \<open>Character classes\<close>

text \<open>
  \<open>str.isspace\<close>, \<open>str.strip()\<close> and the pattern class \<open>\s\<close> agree on the white space
  of the range: TAB, LF, VT, FF, CR, the separators 0x1C .. 0x1F, space, NEL (0x85) and
  the no-break space (0xA0).
\<close>

definition is_space :: "char \<Rightarrow> bool" where
  "is_space c = (of_char c \<in> {9, 10, 11, 12, 13, 28, 29, 30, 31, 32, 133, 160 :: nat})"

text \<open>The class \<open>\d\<close>: the decimal digits of the range are \<open>0 .. 9\<close>.\<close>

definition is_digit :: "char \<Rightarrow> bool" where
  "is_digit c = (48 \<le> (of_char c :: nat) \<and> (of_char c :: nat) \<le> 57)"

text \<open>Case folding of \<open>re.IGNORECASE\<close>: within the range only \<open>A .. Z\<close> fold, to \<open>a .. z\<close>.\<close>

definition lower :: "char \<Rightarrow> char" where
  "lower c = (if 65 \<le> (of_char c :: nat) \<and> (of_char c :: nat) \<le> 90
              then char_of (of_char c + 32 :: nat) else c)"

text \<open>The class \<open>[IVXLCDM]\<close> under \<open>re.IGNORECASE\<close>.\<close>

definition is_roman :: "char \<Rightarrow> bool" where
  "is_roman c = (lower c \<in> set ''ivxlcdm'')"

text \<open>The class \<open>[:\s]\<close>.\<close>

definition is_colon_space :: "char \<Rightarrow> bool" where
  "is_colon_space c = (c = CHR '':'' \<or> is_space c)"

text \<open>The class \<open>[:\.\s]\<close>.\<close>

definition is_colon_dot_space :: "char \<Rightarrow> bool" where
  "is_colon_dot_space c = (c = CHR '':'' \<or> c = CHR ''.'' \<or> is_space c)"

text \<open>The class \<open>[^\n]\<close>.\<close>

definition not_newline :: "char \<Rightarrow> bool" where
  "not_newline c = (c \<noteq> CHR 0x0A)"

subsection \<open>String methods\<close>

text \<open>\<open>s.strip()\<close>: white space removed at both ends.\<close>

definition strip :: "string \<Rightarrow> string" where
  "strip s = rev (dropWhile is_space (rev (dropWhile is_space s)))"

text \<open>
  \<open>s.split(sep)\<close> for a one-character separator: never the empty list
  (\<open>''''.split('\n') == ['''']\<close>), and a trailing separator gives a trailing empty piece.
\<close>

fun split :: "char \<Rightarrow> string \<Rightarrow> string list" where
  "split sep [] = [[]]"
| "split sep (c # cs) =
     (if c = sep then [] # split sep cs
      else (case split sep cs of
              [] \<Rightarrow> [[c]]
            | l # ls \<Rightarrow> (c # l) # ls))"

text \<open>
  \<open>int(s)\<close> on a non-empty run of decimal digits. Integers are unbounded; the limit of
  the interpreter on the number of digits of an integer string is not modelled.
\<close>

definition digit_val :: "char \<Rightarrow> int" where
  "digit_val c = int (of_char c) - 48"

definition int_of_digits :: "string \<Rightarrow> int" where
  "int_of_digits s = foldl (\<lambda>n c. 10 * n + digit_val c) 0 s"

section \<open>Regular expression matching\<close>

text \<open>
  \<open>re.match\<close> is a backtracking matcher anchored at the start of the string: a pattern
  is the list of its successful matches in the order the engine tries them, and
  \<open>re.match\<close> returns the first. A greedy repetition of a character class tries the
  longest run first and gives characters back one at a time, down to its lower bound.
\<close>

definition greedy :: "nat \<Rightarrow> (char \<Rightarrow> bool) \<Rightarrow> string \<Rightarrow> (string \<times> string) list" where
  "greedy lo P s =
     map (\<lambda>k. (take k s, drop k s)) (rev [lo ..< Suc (length (takeWhile P s))])"

text \<open>A literal under \<open>re.IGNORECASE\<close>; the result is the rest of the string.\<close>

definition lit_ci :: "string \<Rightarrow> string \<Rightarrow> string list" where
  "lit_ci p s =
     (if length p \<le> length s \<and> map lower (take (length p) s) = map lower p
      then [drop (length p) s] else [])"

definition re_match :: "(string \<Rightarrow> 'a list) \<Rightarrow> string \<Rightarrow> 'a option" where
  "re_match pattern s = (case pattern s of [] \<Rightarrow> None | m # _ \<Rightarrow> Some m)"

text \<open>
  \<^verbatim>\<open>chapter_pattern = r'(?:CHAPTER|Chapter)\s+([IVXLCDM]+|\d+)[:\s]*([^\n]+)'\<close>
  The result of a match is the pair of its groups 1 and 2.
\<close>

definition chapter_pattern :: "string \<Rightarrow> (string \<times> string) list" where
  "chapter_pattern s =
     List.bind (lit_ci ''CHAPTER'' s @ lit_ci ''Chapter'' s) (\<lambda>r0.
     List.bind (greedy 1 is_space r0) (\<lambda>(_, r1).
     List.bind (greedy 1 is_roman r1 @ greedy 1 is_digit r1) (\<lambda>(g1, r2).
     List.bind (greedy 0 is_colon_space r2) (\<lambda>(_, r3).
     List.bind (greedy 1 not_newline r3) (\<lambda>(g2, _).
       [(g1, g2)])))))"

text \<open>
  \<^verbatim>\<open>section_pattern = r'(?:Section|\\xa7)\s*(\d+)[:\.\s]*([^\n]+)'\<close>
\<close>

definition section_pattern :: "string \<Rightarrow> (string \<times> string) list" where
  "section_pattern s =
     List.bind (lit_ci ''Section'' s @ lit_ci [CHR 0xA7] s) (\<lambda>r0.
     List.bind (greedy 0 is_space r0) (\<lambda>(_, r1).
     List.bind (greedy 1 is_digit r1) (\<lambda>(g1, r2).
     List.bind (greedy 0 is_colon_dot_space r2) (\<lambda>(_, r3).
     List.bind (greedy 1 not_newline r3) (\<lambda>(g2, _).
       [(g1, g2)])))))"

text \<open>What the patterns accept, on the examples of the comments of the source.\<close>

lemma pattern_examples:
  "re_match chapter_pattern ''Chapter XVI Of Offences'' = Some (''XVI'', ''Of Offences'')"
  "re_match chapter_pattern ''CHAPTER 16: Offences'' = Some (''16'', ''Offences'')"
  "re_match section_pattern ''Section 365. Kidnapping'' = Some (''365'', ''Kidnapping'')"
  "re_match section_pattern (CHR 0xA7 # ''365 Kidnapping'') = Some (''365'', ''Kidnapping'')"
  "re_match section_pattern ''Section 365'' = Some (''36'', ''5'')"
  "re_match section_pattern ''365. Kidnapping'' = None"
  by code_simp+

section \<open>The section parser\<close>

text \<open>
  The state of the scan of \<open>parse_slpc_sections\<close>: the line index \<open>i\<close>, the chapter
  context and the sections appended so far.
\<close>

record scan_state =
  pos :: nat
  current_chapter :: string
  current_chapter_num :: py_value
  sections :: "py_dict list"

text \<open>
  The inner loop, from \<open>j\<close> with the description accumulated so far: it stops at the
  first line that matches a heading pattern, or at the end of the lines, and returns the
  final \<open>j\<close> and description.
\<close>

function collect_desc :: "string list \<Rightarrow> nat \<Rightarrow> string \<Rightarrow> nat \<times> string" where
  "collect_desc lines j section_desc =
     (if j < length lines then
        (let next_line = strip (lines ! j) in
         if re_match chapter_pattern next_line \<noteq> None
            \<or> re_match section_pattern next_line \<noteq> None
         then (j, section_desc)
         else collect_desc lines (j + 1)
                (if next_line \<noteq> [] then section_desc @ next_line @ '' '' else section_desc))
      else (j, section_desc))"
  by pat_completeness auto
termination
  by (relation "measure (\<lambda>(lines, j, d). length lines - j)") auto

declare collect_desc.simps [simp del]

text \<open>One iteration of the outer loop, for \<open>i < len(lines)\<close>.\<close>

definition scan_step :: "string list \<Rightarrow> scan_state \<Rightarrow> scan_state" where
  "scan_step lines st =
     (let i = pos st; line = strip (lines ! i) in
      case re_match chapter_pattern line of
        Some (g1, g2) \<Rightarrow>
          st\<lparr>current_chapter_num := PyStr g1, current_chapter := strip g2, pos := i + 1\<rparr>
      | None \<Rightarrow>
         (case re_match section_pattern line of
            Some (g1, g2) \<Rightarrow>
              (let section_num = int_of_digits g1;
                   section_title = strip g2;
                   (j, acc) = collect_desc lines (i + 1) [];
                   section_desc = strip acc
               in if section_desc \<noteq> []
                  then st\<lparr>sections := sections st @
                            [[(''chapter'', current_chapter_num st),
                              (''chapter_title'', PyStr (current_chapter st)),
                              (''Section'', PyInt section_num),
                              (''section_title'', PyStr section_title),
                              (''section_desc'', PyStr section_desc)]],
                          pos := j\<rparr>
                  else st\<lparr>pos := j\<rparr>)
          | None \<Rightarrow> st\<lparr>pos := i + 1\<rparr>))"

lemma collect_desc_bounds:
  "j \<le> fst (collect_desc lines j d) \<and> (j \<le> length lines \<longrightarrow> fst (collect_desc lines j d) \<le> length lines)"
proof (induction lines j d rule: collect_desc.induct)
  case (1 lines j d)
  show ?case
  proof (cases "j < length lines")
    case False
    then show ?thesis by (simp add: collect_desc.simps)
  next
    case True
    note lt = this
    show ?thesis
    proof (cases "re_match chapter_pattern (strip (lines ! j)) \<noteq> None
                  \<or> re_match section_pattern (strip (lines ! j)) \<noteq> None")
      case True
      with lt show ?thesis by (subst collect_desc.simps, subst collect_desc.simps) (simp add: Let_def)
    next
      case False
      with lt 1 [OF lt refl False] show ?thesis
        by (subst collect_desc.simps, subst collect_desc.simps) (auto simp: Let_def)
    qed
  qed
qed

lemma scan_step_advances:
  "pos st < length lines \<Longrightarrow>
   pos st < pos (scan_step lines st) \<and> pos (scan_step lines st) \<le> length lines"
  using collect_desc_bounds [of "pos st + 1" lines "[]"]
  by (auto simp: scan_step_def Let_def split: option.splits prod.splits)

text \<open>The outer loop \<open>while i < len(lines)\<close>.\<close>

function scan :: "string list \<Rightarrow> scan_state \<Rightarrow> scan_state" where
  "scan lines st = (if pos st < length lines then scan lines (scan_step lines st) else st)"
  by pat_completeness auto
termination
proof (relation "measure (\<lambda>(lines, st). length lines - pos st)")
  show "wf (measure (\<lambda>(lines, st). length lines - pos st))" by simp
next
  fix lines :: "string list" and st :: scan_state
  assume "pos st < length lines"
  with scan_step_advances [of st lines]
  have "length lines - pos (scan_step lines st) < length lines - pos st"
    by arith
  then show "((lines, scan_step lines st), (lines, st)) \<in> measure (\<lambda>(lines, st). length lines - pos st)"
    by simp
qed

declare scan.simps [simp del]

definition initial_state :: scan_state where
  "initial_state =
     \<lparr>pos = 0, current_chapter = ''Unknown'', current_chapter_num = PyInt 0, sections = []\<rparr>"

text \<open>The scan of a list of lines from the initial chapter context.\<close>

definition parse_lines :: "string list \<Rightarrow> py_dict list" where
  "parse_lines lines = sections (scan lines initial_state)"

definition parse_slpc_sections :: "string \<Rightarrow> py_dict list" where
  "parse_slpc_sections text = parse_lines (split (CHR 0x0A) text)"

section \<open>The scan as a function of the remaining lines\<close>

text \<open>
  The classification of a line that the scan uses: a line is a heading when, stripped, it
  matches the chapter pattern or the section pattern; the outer loop tries the chapter
  pattern first.
\<close>

definition is_heading :: "string \<Rightarrow> bool" where
  "is_heading l = (re_match chapter_pattern (strip l) \<noteq> None \<or> re_match section_pattern (strip l) \<noteq> None)"

definition is_chapter_heading :: "string \<Rightarrow> bool" where
  "is_chapter_heading l = (re_match chapter_pattern (strip l) \<noteq> None)"

definition is_section_heading :: "string \<Rightarrow> bool" where
  "is_section_heading l = (re_match chapter_pattern (strip l) = None \<and> re_match section_pattern (strip l) \<noteq> None)"

definition body_text :: "string list \<Rightarrow> string" where
  "body_text ls = strip (concat (map (\<lambda>l. strip l @ '' '') (filter (\<lambda>l. strip l \<noteq> []) ls)))"

function records_from :: "string \<Rightarrow> py_value \<Rightarrow> string list \<Rightarrow> py_dict list" where
  "records_from ch num [] = []"
| "records_from ch num (l # ls) =
     (case re_match chapter_pattern (strip l) of
        Some (g1, g2) \<Rightarrow> records_from (strip g2) (PyStr g1) ls
      | None \<Rightarrow>
         (case re_match section_pattern (strip l) of
            Some (g1, g2) \<Rightarrow>
              (if body_text (takeWhile (\<lambda>l. \<not> is_heading l) ls) \<noteq> []
               then [[(''chapter'', num),
                      (''chapter_title'', PyStr ch),
                      (''Section'', PyInt (int_of_digits g1)),
                      (''section_title'', PyStr (strip g2)),
                      (''section_desc'', PyStr (body_text (takeWhile (\<lambda>l. \<not> is_heading l) ls)))]]
               else [])
              @ records_from ch num (dropWhile (\<lambda>l. \<not> is_heading l) ls)
          | None \<Rightarrow> records_from ch num ls))"
  by pat_completeness auto
termination
  by (relation "measure (\<lambda>(ch, num, ls). length ls)")
     (auto simp: less_Suc_eq_le length_dropWhile_le)

declare records_from.simps(2) [simp del]

lemma collect_desc_unfold:
  "collect_desc lines j d =
     (if j < length lines then
        if is_heading (lines ! j) then (j, d)
        else collect_desc lines (Suc j)
               (if strip (lines ! j) \<noteq> [] then d @ strip (lines ! j) @ '' '' else d)
      else (j, d))"
  by (subst collect_desc.simps) (simp add: is_heading_def Let_def)

lemma collect_desc_eq:
  "j \<le> length lines \<Longrightarrow>
   collect_desc lines j d =
     (j + length (takeWhile (\<lambda>l. \<not> is_heading l) (drop j lines)),
      d @ concat (map (\<lambda>l. strip l @ '' '')
                  (filter (\<lambda>l. strip l \<noteq> []) (takeWhile (\<lambda>l. \<not> is_heading l) (drop j lines)))))"
proof (induction "length lines - j" arbitrary: j d)
  case 0
  then show ?case by (subst collect_desc_unfold) simp
next
  case (Suc n)
  then have lt: "j < length lines" by simp
  then have dr: "drop j lines = lines ! j # drop (Suc j) lines"
    by (simp add: Cons_nth_drop_Suc)
  show ?case
  proof (cases "is_heading (lines ! j)")
    case True
    with lt show ?thesis
      by (subst collect_desc_unfold) (simp add: dr)
  next
    case False
    from Suc(2) lt have "n = length lines - Suc j" "Suc j \<le> length lines" by simp_all
    from Suc(1) [OF this] lt False show ?thesis
      by (subst collect_desc_unfold) (simp add: dr)
  qed
qed

lemma drop_takeWhile_dropWhile:
  "drop (Suc (i + length (takeWhile P (drop (Suc i) xs)))) xs = dropWhile P (drop (Suc i) xs)"
  by (simp add: dropWhile_eq_drop add.commute)

lemma scan_step_records:
  assumes "pos st < length lines"
  shows "sections (scan_step lines st) @
           records_from (current_chapter (scan_step lines st)) (current_chapter_num (scan_step lines st))
             (drop (pos (scan_step lines st)) lines) =
         sections st @
           records_from (current_chapter st) (current_chapter_num st) (drop (pos st) lines)"
proof -
  from assms have dr: "drop (pos st) lines = lines ! pos st # drop (Suc (pos st)) lines"
    by (simp add: Cons_nth_drop_Suc)
  from assms have le: "Suc (pos st) \<le> length lines" by simp
  show ?thesis
    unfolding dr records_from.simps(2) scan_step_def
    by (simp add: Let_def collect_desc_eq [OF le] drop_takeWhile_dropWhile body_text_def
             split: option.splits prod.splits)
qed

lemma scan_records:
  "pos st \<le> length lines \<Longrightarrow>
   sections (scan lines st) =
     sections st @ records_from (current_chapter st) (current_chapter_num st) (drop (pos st) lines)"
proof (induction lines st rule: scan.induct)
  case (1 lines st)
  show ?case
  proof (cases "pos st < length lines")
    case False
    with 1(2) show ?thesis by (subst scan.simps) simp
  next
    case True
    from scan_step_advances [OF True] have "pos (scan_step lines st) \<le> length lines" by simp
    from 1(1) [OF True this] scan_step_records [OF True] True show ?thesis
      by (subst scan.simps) simp
  qed
qed

lemma parse_lines_records: "parse_lines lines = records_from ''Unknown'' (PyInt 0) lines"
  by (simp add: parse_lines_def scan_records initial_state_def)

lemma records_from_desc:
  "r \<in> set (records_from ch num ls) \<Longrightarrow>
   \<exists>d. map_of r ''section_desc'' = Some (PyStr d) \<and> d \<noteq> []"
proof (induction ch num ls rule: records_from.induct)
  case (1 ch num)
  then show ?case by simp
next
  case (2 ch num l ls)
  from 2(4) show ?case
    by (auto simp: records_from.simps(2) split: option.splits prod.splits if_splits
             dest: 2(1) 2(2) 2(3))
qed

lemma set_dropWhile_keeps: "x \<in> set xs \<Longrightarrow> \<not> P x \<Longrightarrow> x \<in> set (dropWhile P xs)"
  by (induction xs) auto

lemma strip_keeps: "c \<in> set s \<Longrightarrow> \<not> is_space c \<Longrightarrow> c \<in> set (strip s)"
  by (simp add: strip_def set_dropWhile_keeps)

lemma strip_subset: "c \<in> set (strip s) \<Longrightarrow> c \<in> set s"
  by (auto simp: strip_def dest!: set_dropWhileD)

lemma hd_strip: "strip s \<noteq> [] \<Longrightarrow> \<not> is_space (hd (strip s))"
proof -
  assume ne: "strip s \<noteq> []"
  define a where "a = dropWhile is_space s"
  have "a \<noteq> []"
  proof
    assume "a = []"
    then have "strip s = []" unfolding strip_def a_def [symmetric] by simp
    with ne show False by simp
  qed
  then obtain x t where xt: "a = x # t" by (cases a) auto
  have "\<not> is_space (hd a)" unfolding a_def using \<open>a \<noteq> []\<close> [unfolded a_def] by (rule hd_dropWhile)
  with xt have x: "\<not> is_space x" by simp
  have "dropWhile is_space (rev t @ [x]) =
          (if \<forall>y\<in>set (rev t). is_space y then [x] else dropWhile is_space (rev t) @ [x])"
    using x by (simp add: dropWhile_append)
  then obtain ys where "dropWhile is_space (rev t @ [x]) = ys @ [x]"
    by (metis append_Nil)
  then have "strip s = x # rev ys"
    by (simp add: strip_def a_def [symmetric] xt)
  with x show ?thesis by simp
qed

lemma strip_nonempty_iff: "strip s \<noteq> [] \<longleftrightarrow> (\<exists>c\<in>set s. \<not> is_space c)"
proof
  assume "strip s \<noteq> []"
  then have "hd (strip s) \<in> set (strip s)" "\<not> is_space (hd (strip s))"
    by (simp_all add: hd_strip)
  then show "\<exists>c\<in>set s. \<not> is_space c" by (blast dest: strip_subset)
next
  assume "\<exists>c\<in>set s. \<not> is_space c"
  then obtain c where "c \<in> set s" "\<not> is_space c" by blast
  then have "c \<in> set (strip s)" by (rule strip_keeps)
  then show "strip s \<noteq> []" by auto
qed

lemma body_text_nonempty_iff: "body_text ls \<noteq> [] \<longleftrightarrow> (\<exists>l\<in>set ls. strip l \<noteq> [])"
proof
  assume ne: "body_text ls \<noteq> []"
  show "\<exists>l\<in>set ls. strip l \<noteq> []"
  proof (rule ccontr)
    assume "\<not> (\<exists>l\<in>set ls. strip l \<noteq> [])"
    then have "filter (\<lambda>l. strip l \<noteq> []) ls = []" by (simp add: filter_empty_conv)
    then have "body_text ls = []" by (simp add: body_text_def strip_def)
    with ne show False by simp
  qed
next
  assume "\<exists>l\<in>set ls. strip l \<noteq> []"
  then obtain l where l: "l \<in> set ls" "strip l \<noteq> []" by blast
  then have "hd (strip l) \<in> set (strip l)" "\<not> is_space (hd (strip l))"
    by (simp_all add: hd_strip)
  then have "\<exists>c\<in>set (strip l @ '' ''). \<not> is_space c"
    by auto
  moreover from l have "set (strip l @ '' '') \<subseteq>
      set (concat (map (\<lambda>l. strip l @ '' '') (filter (\<lambda>l. strip l \<noteq> []) ls)))"
    by force
  ultimately have "\<exists>c\<in>set (concat (map (\<lambda>l. strip l @ '' '') (filter (\<lambda>l. strip l \<noteq> []) ls))). \<not> is_space c"
    by blast
  then show "body_text ls \<noteq> []"
    unfolding body_text_def strip_nonempty_iff .
qed

lemma takeWhile_heading_append:
  "is_heading y \<Longrightarrow> takeWhile (\<lambda>l. \<not> is_heading l) (xs @ y # ys) = takeWhile (\<lambda>l. \<not> is_heading l) xs"
  by (induction xs) auto

lemma dropWhile_heading_append:
  "is_heading y \<Longrightarrow> dropWhile (\<lambda>l. \<not> is_heading l) (xs @ y # ys) = dropWhile (\<lambda>l. \<not> is_heading l) xs @ y # ys"
  by (induction xs) auto

lemma records_from_skip_empty:
  "is_section_heading h \<Longrightarrow> is_heading nxt \<Longrightarrow>
   records_from ch num (pre @ h # nxt # post) = records_from ch num (pre @ nxt # post)"
proof (induction ch num pre rule: records_from.induct)
  case (1 ch num)
  then show ?case
    by (auto simp: records_from.simps(2) [of _ _ h] is_section_heading_def body_text_def strip_def)
next
  case (2 ch num l ls)
  from "2.prems" have hh: "is_heading h" by (simp add: is_section_heading_def is_heading_def)
  from "2.IH" "2.prems" hh show ?case
    by (auto simp: records_from.simps(2) [of _ _ l] takeWhile_heading_append
                   dropWhile_heading_append split: option.splits)
qed

section \<open>Well-formed section headings\<close>

text \<open>
  A line that the section pattern matches has a well-formed body when the lines that
  follow it, up to the next line that a heading pattern matches or the end of the text,
  hold at least one line that is not blank.
\<close>

fun well_formed_sections :: "string list \<Rightarrow> bool" where
  "well_formed_sections [] = True"
| "well_formed_sections (l # ls) =
     ((is_section_heading l \<longrightarrow>
         (\<exists>b\<in>set (takeWhile (\<lambda>l. \<not> is_heading l) ls). strip b \<noteq> []))
      \<and> well_formed_sections ls)"

definition heading_fields :: "string \<Rightarrow> py_value option \<times> py_value option" where
  "heading_fields l =
     (case re_match section_pattern (strip l) of
        Some (g1, g2) \<Rightarrow> (Some (PyInt (int_of_digits g1)), Some (PyStr (strip g2)))
      | None \<Rightarrow> (None, None))"

definition record_fields :: "py_dict \<Rightarrow> py_value option \<times> py_value option" where
  "record_fields r = (map_of r ''Section'', map_of r ''section_title'')"

lemma scan_pos: "pos st \<le> length lines \<Longrightarrow> pos (scan lines st) = length lines"
proof (induction lines st rule: scan.induct)
  case (1 lines st)
  show ?case
  proof (cases "pos st < length lines")
    case False
    with 1(2) show ?thesis by (subst scan.simps) simp
  next
    case True
    from scan_step_advances [OF True] have "pos (scan_step lines st) \<le> length lines" by simp
    from 1(1) [OF True this] True show ?thesis
      by (subst scan.simps) simp
  qed
qed

lemma while_scan:
  "while_option (\<lambda>st. pos st < length lines) (scan_step lines) st = Some (scan lines st)"
proof (induction lines st rule: scan.induct)
  case (1 lines st)
  show ?case
  proof (cases "pos st < length lines")
    case True
    with 1 show ?thesis
      by (subst while_option_unfold, subst scan.simps) simp
  next
    case False
    then show ?thesis
      by (subst while_option_unfold, subst scan.simps) simp
  qed
qed

lemma well_formed_dropWhile: "well_formed_sections ls \<Longrightarrow> well_formed_sections (dropWhile P ls)"
  by (induction ls) auto

lemma section_is_heading: "is_section_heading l \<Longrightarrow> is_heading l"
  by (simp add: is_section_heading_def is_heading_def)

lemma filter_section_takeWhile:
  "filter is_section_heading (takeWhile (\<lambda>l. \<not> is_heading l) ls) = []"
  by (auto simp: filter_empty_conv dest: set_takeWhileD section_is_heading)

lemma filter_section_dropWhile:
  "filter is_section_heading (dropWhile (\<lambda>l. \<not> is_heading l) ls) = filter is_section_heading ls"
proof -
  have "filter is_section_heading ls =
        filter is_section_heading (takeWhile (\<lambda>l. \<not> is_heading l) ls @ dropWhile (\<lambda>l. \<not> is_heading l) ls)"
    by simp
  also have "\<dots> = filter is_section_heading (dropWhile (\<lambda>l. \<not> is_heading l) ls)"
    by (simp only: filter_append filter_section_takeWhile append_Nil)
  finally show ?thesis by simp
qed

lemma records_from_well_formed:
  "well_formed_sections ls \<Longrightarrow>
   map record_fields (records_from ch num ls) = map heading_fields (filter is_section_heading ls)"
proof (induction ch num ls rule: records_from.induct)
  case (1 ch num)
  then show ?case by simp
next
  case (2 ch num l ls)
  from "2.prems" have wf: "well_formed_sections ls"
    and body: "is_section_heading l \<Longrightarrow> body_text (takeWhile (\<lambda>l. \<not> is_heading l) ls) \<noteq> []"
    by (simp_all add: body_text_nonempty_iff)
  from wf have wfd: "well_formed_sections (dropWhile (\<lambda>l. \<not> is_heading l) ls)"
    by (rule well_formed_dropWhile)
  show ?case
  proof (cases "re_match chapter_pattern (strip l)")
    case (Some g)
    obtain g1 g2 where g: "g = (g1, g2)" by (cases g)
    from Some have ns: "\<not> is_section_heading l" by (simp add: is_section_heading_def)
    from "2.IH"(3) [OF Some [unfolded g] refl wf] Some g ns show ?thesis
      by (simp add: records_from.simps(2) [of _ _ l])
  next
    case None
    note c = this
    show ?thesis
    proof (cases "re_match section_pattern (strip l)")
      case None
      with c have ns: "\<not> is_section_heading l" by (simp add: is_section_heading_def)
      from "2.IH"(1) [OF c None wf] c None ns show ?thesis
        by (simp add: records_from.simps(2) [of _ _ l])
    next
      case (Some g)
      obtain g1 g2 where g: "g = (g1, g2)" by (cases g)
      from c Some have sh: "is_section_heading l" by (simp add: is_section_heading_def)
      from "2.IH"(2) [OF c Some [unfolded g] refl wfd] c Some g sh body [OF sh] show ?thesis
        by (simp add: records_from.simps(2) [of _ _ l] filter_section_dropWhile
                      heading_fields_def record_fields_def)
    qed
  qed
qed

lemma chapter_is_heading: "is_chapter_heading l \<Longrightarrow> is_heading l"
  by (simp add: is_chapter_heading_def is_heading_def)

lemma no_chapter_None: "\<not> is_chapter_heading l \<Longrightarrow> re_match chapter_pattern (strip l) = None"
  by (cases "re_match chapter_pattern (strip l)") (simp_all add: is_chapter_heading_def)

lemma takeWhile_before_heading:
  "post = [] \<or> is_heading (hd post) \<Longrightarrow>
   takeWhile (\<lambda>l. \<not> is_heading l) (ls @ post) = takeWhile (\<lambda>l. \<not> is_heading l) ls"
proof (cases post)
  case Nil
  then show ?thesis by simp
next
  case (Cons y ys)
  assume "post = [] \<or> is_heading (hd post)"
  with Cons have "is_heading y" by simp
  with Cons show ?thesis by (simp add: takeWhile_heading_append)
qed

lemma dropWhile_before_heading:
  "post = [] \<or> is_heading (hd post) \<Longrightarrow>
   dropWhile (\<lambda>l. \<not> is_heading l) (ls @ post) = dropWhile (\<lambda>l. \<not> is_heading l) ls @ post"
proof (cases post)
  case Nil
  then show ?thesis by simp
next
  case (Cons y ys)
  assume "post = [] \<or> is_heading (hd post)"
  with Cons have "is_heading y" by simp
  with Cons show ?thesis by (simp add: dropWhile_heading_append)
qed

lemma records_from_no_chapter:
  "\<forall>l\<in>set pre. \<not> is_chapter_heading l \<Longrightarrow> r \<in> set (records_from ch num pre) \<Longrightarrow>
   map_of r ''chapter'' = Some num \<and> map_of r ''chapter_title'' = Some (PyStr ch)"
proof (induction ch num pre rule: records_from.induct)
  case (1 ch num)
  then show ?case by simp
next
  case (2 ch num l ls)
  from "2.prems"(1) have "\<not> is_chapter_heading l"
    and rest: "\<forall>l\<in>set ls. \<not> is_chapter_heading l"
    by simp_all
  then have nc: "re_match chapter_pattern (strip l) = None"
    by (simp add: no_chapter_None)
  from rest have restd: "\<forall>l\<in>set (dropWhile (\<lambda>l. \<not> is_heading l) ls). \<not> is_chapter_heading l"
    by (blast dest: set_dropWhileD)
  show ?case
  proof (cases "re_match section_pattern (strip l)")
    case None
    with "2.prems"(2) nc have "r \<in> set (records_from ch num ls)"
      by (simp add: records_from.simps(2) [of _ _ l])
    from "2.IH"(1) [OF nc None rest this] show ?thesis .
  next
    case (Some g)
    obtain g1 g2 where g: "g = (g1, g2)" by (cases g)
    let ?rec = "[(''chapter'', num), (''chapter_title'', PyStr ch),
                 (''Section'', PyInt (int_of_digits g1)), (''section_title'', PyStr (strip g2)),
                 (''section_desc'', PyStr (body_text (takeWhile (\<lambda>l. \<not> is_heading l) ls)))]"
    from nc Some g have eq: "records_from ch num (l # ls) =
        (if body_text (takeWhile (\<lambda>l. \<not> is_heading l) ls) \<noteq> [] then [?rec] else [])
        @ records_from ch num (dropWhile (\<lambda>l. \<not> is_heading l) ls)"
      by (simp add: records_from.simps(2) [of _ _ l])
    from "2.prems"(2) [unfolded eq]
    have "r = ?rec \<or> r \<in> set (records_from ch num (dropWhile (\<lambda>l. \<not> is_heading l) ls))"
      by (cases "body_text (takeWhile (\<lambda>l. \<not> is_heading l) ls) = []") simp_all
    then show ?thesis
    proof
      assume "r = ?rec"
      then show ?thesis by simp
    next
      assume "r \<in> set (records_from ch num (dropWhile (\<lambda>l. \<not> is_heading l) ls))"
      from "2.IH"(2) [OF nc Some [unfolded g] refl restd this] show ?thesis .
    qed
  qed
qed

lemma records_from_append:
  "\<forall>l\<in>set pre. \<not> is_chapter_heading l \<Longrightarrow> post = [] \<or> is_chapter_heading (hd post) \<Longrightarrow>
   records_from ch num (pre @ post) = records_from ch num pre @ records_from ch num post"
proof (induction ch num pre rule: records_from.induct)
  case (1 ch num)
  then show ?case by simp
next
  case (2 ch num l ls)
  from "2.prems"(1) have "\<not> is_chapter_heading l"
    and rest: "\<forall>l\<in>set ls. \<not> is_chapter_heading l"
    by simp_all
  then have nc: "re_match chapter_pattern (strip l) = None"
    by (simp add: no_chapter_None)
  from rest have restd: "\<forall>l\<in>set (dropWhile (\<lambda>l. \<not> is_heading l) ls). \<not> is_chapter_heading l"
    by (blast dest: set_dropWhileD)
  from "2.prems"(2) have ph: "post = [] \<or> is_heading (hd post)"
    by (blast intro: chapter_is_heading)
  note tk = takeWhile_before_heading [OF ph, of ls] and dr = dropWhile_before_heading [OF ph, of ls]
  show ?case
  proof (cases "re_match section_pattern (strip l)")
    case None
    with "2.IH"(1) [OF nc None rest "2.prems"(2)] nc show ?thesis
      by (simp add: records_from.simps(2) [of _ _ l])
  next
    case (Some g)
    obtain g1 g2 where g: "g = (g1, g2)" by (cases g)
    from "2.IH"(2) [OF nc Some [unfolded g] refl restd "2.prems"(2)] nc Some g show ?thesis
      by (simp add: records_from.simps(2) [of _ _ l] tk dr)
  qed
qed

section \<open>The vector store builder\<close>

text \<open>
  The exceptions of the program. \<open>OtherError\<close> is an exception of a library call;
  \<open>OutsideModel\<close> is not an exception: it marks an input that the model of the \<open>json\<close>
  decoder below does not cover.
\<close>

datatype py_error =
    KeyError string
  | EnvironmentError
  | FileNotFoundError
  | JSONDecodeError
  | OtherError string
  | OutsideModel

text \<open>\<open>str(n)\<close> for an integer: decimal digits, with a minus sign when negative.\<close>

function str_nat :: "nat \<Rightarrow> string" where
  "str_nat n = (if n < 10 then [char_of (48 + n)]
                else str_nat (n div 10) @ [char_of (48 + n mod 10)])"
  by pat_completeness auto
termination
  by (relation "measure id") auto

declare str_nat.simps [simp del]

definition str_int :: "int \<Rightarrow> string" where
  "str_int i = (if i < 0 then CHR ''-'' # str_nat (nat (- i)) else str_nat (nat i))"

text \<open>A replacement field \<open>{v}\<close> of an f-string: \<open>format(v, '')\<close>, that is \<open>str(v)\<close>.\<close>

fun format_value :: "py_value \<Rightarrow> string" where
  "format_value PyNone = ''None''"
| "format_value (PyInt i) = str_int i"
| "format_value (PyStr s) = s"

text \<open>\<open>entry[key]\<close> raises \<open>KeyError\<close> on a missing key; \<open>d.get(key)\<close> gives \<open>None\<close>.\<close>

definition getitem :: "py_dict \<Rightarrow> string \<Rightarrow> py_error + py_value" where
  "getitem d k = (case map_of d k of None \<Rightarrow> Inl (KeyError k) | Some v \<Rightarrow> Inr v)"

definition dict_get :: "py_dict \<Rightarrow> string \<Rightarrow> py_value" where
  "dict_get d k = (case map_of d k of None \<Rightarrow> PyNone | Some v \<Rightarrow> v)"

record document =
  page_content :: string
  metadata :: py_dict

text \<open>
  One \<open>Document(...)\<close> of \<open>prepare_documents\<close>. The keyword arguments are evaluated in
  order: the f-string reads \<open>Section\<close>, \<open>section_title\<close> and \<open>section_desc\<close>, then the
  metadata dictionary reads \<open>chapter\<close>, \<open>chapter_title\<close>, \<open>Section\<close> and \<open>section_title\<close>;
  the first missing key raises.
\<close>

definition make_document :: "py_dict \<Rightarrow> py_error + document" where
  "make_document entry =
     (case getitem entry ''Section'' of Inl e \<Rightarrow> Inl e | Inr sec \<Rightarrow>
      case getitem entry ''section_title'' of Inl e \<Rightarrow> Inl e | Inr title \<Rightarrow>
      case getitem entry ''section_desc'' of Inl e \<Rightarrow> Inl e | Inr desc \<Rightarrow>
      case getitem entry ''chapter'' of Inl e \<Rightarrow> Inl e | Inr ch \<Rightarrow>
      case getitem entry ''chapter_title'' of Inl e \<Rightarrow> Inl e | Inr ch_title \<Rightarrow>
        Inr \<lparr>page_content =
               ''Section '' @ format_value sec @ '': '' @ format_value title
                 @ [CHR 0x0A, CHR 0x0A] @ format_value desc,
             metadata =
               [(''chapter'', ch), (''chapter_title'', ch_title),
                (''section'', sec), (''section_title'', title)]\<rparr>)"

text \<open>The list comprehension over \<open>slpc_data\<close>.\<close>

fun prepare_documents :: "py_dict list \<Rightarrow> py_error + document list" where
  "prepare_documents [] = Inr []"
| "prepare_documents (entry # rest) =
     (case make_document entry of
        Inl e \<Rightarrow> Inl e
      | Inr d \<Rightarrow>
         (case prepare_documents rest of
            Inl e \<Rightarrow> Inl e
          | Inr ds \<Rightarrow> Inr (d # ds)))"

section \<open>The intermediate corpus file\<close>

subsection \<open>Writing: \<open>json.dump(data, f, indent=2, ensure_ascii=False)\<close>\<close>

text \<open>
  The encoder of strings (\<open>encode_basestring\<close>): the quotation mark, the backslash and
  the control characters below U+0020 are escaped, every other character is written as it
  is (\<open>ensure_ascii=False\<close>).
\<close>

definition hex_digit :: "nat \<Rightarrow> char" where
  "hex_digit n = (if n < 10 then char_of (48 + n) else char_of (87 + n))"

definition escape_char :: "char \<Rightarrow> string" where
  "escape_char c =
     (if c = CHR 0x22 then [CHR 0x5C, CHR 0x22]
      else if c = CHR 0x5C then [CHR 0x5C, CHR 0x5C]
      else if c = CHR 0x0A then [CHR 0x5C, CHR ''n'']
      else if c = CHR 0x0D then [CHR 0x5C, CHR ''r'']
      else if c = CHR 0x09 then [CHR 0x5C, CHR ''t'']
      else if c = CHR 0x08 then [CHR 0x5C, CHR ''b'']
      else if c = CHR 0x0C then [CHR 0x5C, CHR ''f'']
      else if (of_char c :: nat) < 32
        then [CHR 0x5C, CHR ''u'', CHR ''0'', CHR ''0'',
              hex_digit (of_char c div 16), hex_digit (of_char c mod 16)]
      else [c])"

definition json_string :: "string \<Rightarrow> string" where
  "json_string s = CHR 0x22 # concat (map escape_char s) @ [CHR 0x22]"

fun json_scalar :: "py_value \<Rightarrow> string" where
  "json_scalar PyNone = ''null''"
| "json_scalar (PyInt i) = str_int i"
| "json_scalar (PyStr s) = json_string s"

text \<open>With \<open>indent=2\<close> the separators are \<open>','\<close> and \<open>': '\<close>, and every item starts a line
  indented by two spaces per level.\<close>

definition newline_indent :: "nat \<Rightarrow> string" where
  "newline_indent level = CHR 0x0A # replicate (2 * level) (CHR '' '')"

fun join :: "string \<Rightarrow> string list \<Rightarrow> string" where
  "join sep [] = []"
| "join sep [x] = x"
| "join sep (x # y # ys) = x @ sep @ join sep (y # ys)"

definition json_member :: "string \<times> py_value \<Rightarrow> string" where
  "json_member kv = json_string (fst kv) @ '': '' @ json_scalar (snd kv)"

definition json_object :: "py_dict \<Rightarrow> string" where
  "json_object d =
     (if d = [] then ''{}''
      else ''{'' @ newline_indent 2 @ join ('','' @ newline_indent 2) (map json_member d)
             @ newline_indent 1 @ ''}'')"

definition json_array :: "py_dict list \<Rightarrow> string" where
  "json_array data =
     (if data = [] then ''[]''
      else ''['' @ newline_indent 1 @ join ('','' @ newline_indent 1) (map json_object data)
             @ newline_indent 0 @ '']'')"

text \<open>
  The files of the program: the text stored under a path. Writing in UTF-8 and reading
  it back gives the text again, so the store holds the text itself.
\<close>

type_synonym file_system = "string \<Rightarrow> string option"

definition save_to_json :: "py_dict list \<Rightarrow> string \<Rightarrow> file_system \<Rightarrow> file_system" where
  "save_to_json data output_path fs = fs(output_path \<mapsto> json_array data)"

subsection \<open>Reading: \<open>json.load(file)\<close>\<close>

text \<open>
  The decoder follows the scanner of the \<open>json\<close> module on the remaining input. It is
  modelled on the values the program stores: an array of objects whose members are
  strings, integers and \<open>null\<close>. A text that is JSON of another shape (nested containers,
  booleans, floating point numbers, a top-level value that is not an array, escapes of
  code points above U+00FF) is outside the model: \<open>OutsideModel\<close>.
\<close>

definition is_json_ws :: "char \<Rightarrow> bool" where
  "is_json_ws c = (c = CHR '' '' \<or> c = CHR 0x09 \<or> c = CHR 0x0A \<or> c = CHR 0x0D)"

definition skip_ws :: "string \<Rightarrow> string" where
  "skip_ws s = dropWhile is_json_ws s"

definition hex_val :: "char \<Rightarrow> nat option" where
  "hex_val c =
     (let n = (of_char c :: nat) in
      if 48 \<le> n \<and> n \<le> 57 then Some (n - 48)
      else if 97 \<le> n \<and> n \<le> 102 then Some (n - 87)
      else if 65 \<le> n \<and> n \<le> 70 then Some (n - 55)
      else None)"

definition decode_hex4 :: "string \<Rightarrow> nat option" where
  "decode_hex4 s =
     (case s of
        a # b # c # d # _ \<Rightarrow>
          (case (hex_val a, hex_val b, hex_val c, hex_val d) of
             (Some x, Some y, Some z, Some w) \<Rightarrow> Some (((x * 16 + y) * 16 + z) * 16 + w)
           | _ \<Rightarrow> None)
      | _ \<Rightarrow> None)"

definition unescape :: "char \<Rightarrow> char option" where
  "unescape e =
     (if e = CHR 0x22 then Some (CHR 0x22)
      else if e = CHR 0x5C then Some (CHR 0x5C)
      else if e = CHR ''/'' then Some (CHR ''/'')
      else if e = CHR ''b'' then Some (CHR 0x08)
      else if e = CHR ''f'' then Some (CHR 0x0C)
      else if e = CHR ''n'' then Some (CHR 0x0A)
      else if e = CHR ''r'' then Some (CHR 0x0D)
      else if e = CHR ''t'' then Some (CHR 0x09)
      else None)"

text \<open>\<open>scanstring\<close> in strict mode, from the character after the opening quotation mark.\<close>

function scan_string :: "string \<Rightarrow> string \<Rightarrow> py_error + (string \<times> string)" where
  "scan_string [] acc = Inl JSONDecodeError"
| "scan_string (c # cs) acc =
     (if c = CHR 0x22 then Inr (acc, cs)
      else if c = CHR 0x5C then
        (case cs of
           [] \<Rightarrow> Inl JSONDecodeError
         | e # es \<Rightarrow>
            if e = CHR ''u'' then
              (case decode_hex4 es of
                 None \<Rightarrow> Inl JSONDecodeError
               | Some n \<Rightarrow>
                  if n < 256 then scan_string (drop 4 es) (acc @ [char_of n])
                  else Inl OutsideModel)
            else
              (case unescape e of
                 None \<Rightarrow> Inl JSONDecodeError
               | Some ch \<Rightarrow> scan_string es (acc @ [ch])))
      else if (of_char c :: nat) < 32 then Inl JSONDecodeError
      else scan_string cs (acc @ [c]))"
  by pat_completeness auto
termination
  by (relation "measure (\<lambda>(s, acc). length s)") auto

text \<open>
  A number: \<open>-?(0|[1-9][0-9]*)\<close>, read as an integer unless a fraction or an exponent
  follows. \<open>None\<close> when the input does not start with a number.
\<close>

definition has_fraction :: "string \<Rightarrow> bool" where
  "has_fraction r = (case r of c # d # _ \<Rightarrow> c = CHR ''.'' \<and> is_digit d | _ \<Rightarrow> False)"

definition has_exponent :: "string \<Rightarrow> bool" where
  "has_exponent r =
     (case r of
        c # d # r' \<Rightarrow>
          (c = CHR ''e'' \<or> c = CHR ''E'') \<and>
          (is_digit d \<or>
           ((d = CHR ''+'' \<or> d = CHR ''-'') \<and> (case r' of x # _ \<Rightarrow> is_digit x | [] \<Rightarrow> False)))
      | _ \<Rightarrow> False)"

definition integer_part :: "string \<Rightarrow> string" where
  "integer_part s =
     (case s of
        [] \<Rightarrow> []
      | c # cs \<Rightarrow> if c = CHR ''0'' then ''0'' else takeWhile is_digit s)"

definition scan_number :: "string \<Rightarrow> (py_error + (py_value \<times> string)) option" where
  "scan_number s =
     (let neg = (case s of c # _ \<Rightarrow> c = CHR ''-'' | [] \<Rightarrow> False);
          s1 = (if neg then tl s else s);
          ds = integer_part s1;
          r = drop (length ds) s1
      in if ds = [] then None
         else if has_fraction r \<or> has_exponent r then Some (Inl OutsideModel)
         else Some (Inr (PyInt (if neg then - int_of_digits ds else int_of_digits ds), r)))"

definition starts_with :: "string \<Rightarrow> string \<Rightarrow> bool" where
  "starts_with p s = (take (length p) s = p)"

text \<open>\<open>scan_once\<close> where a member value stands.\<close>

definition scan_scalar :: "string \<Rightarrow> py_error + (py_value \<times> string)" where
  "scan_scalar s =
     (case s of
        [] \<Rightarrow> Inl JSONDecodeError
      | c # cs \<Rightarrow>
         if c = CHR 0x22 then
           (case scan_string cs [] of Inl e \<Rightarrow> Inl e | Inr (v, r) \<Rightarrow> Inr (PyStr v, r))
         else if c = CHR ''{'' \<or> c = CHR ''['' then Inl OutsideModel
         else if starts_with ''null'' s then Inr (PyNone, drop 4 s)
         else if starts_with ''true'' s \<or> starts_with ''false'' s then Inl OutsideModel
         else
           (case scan_number s of
              Some res \<Rightarrow> res
            | None \<Rightarrow>
               if starts_with ''NaN'' s \<or> starts_with ''Infinity'' s \<or> starts_with ''-Infinity'' s
               then Inl OutsideModel
               else Inl JSONDecodeError))"

text \<open>\<open>d[k] = v\<close>, and \<open>dict(pairs)\<close>: a later pair replaces the value of an earlier key.\<close>

fun dict_set :: "py_dict \<Rightarrow> string \<Rightarrow> py_value \<Rightarrow> py_dict" where
  "dict_set [] k v = [(k, v)]"
| "dict_set ((k', v') # d) k v = (if k' = k then (k, v) # d else (k', v') # dict_set d k v)"

definition dict_of_pairs :: "(string \<times> py_value) list \<Rightarrow> py_dict" where
  "dict_of_pairs pairs = foldl (\<lambda>d kv. dict_set d (fst kv) (snd kv)) [] pairs"

lemma scan_string_shorter:
  "scan_string s acc = Inr (v, r) \<Longrightarrow> length r < length s"
proof (induction s acc rule: scan_string.induct)
  case (1 acc)
  then show ?case by simp
next
  case (2 c cs acc)
  show ?case
  proof (cases "c = CHR 0x22")
    case True
    with "2.prems" show ?thesis by simp
  next
    case nq: False
    show ?thesis
    proof (cases "c = CHR 0x5C")
      case bs: True
      show ?thesis
      proof (cases cs)
        case Nil
        with "2.prems" nq bs show ?thesis by simp
      next
        case (Cons e es)
        show ?thesis
        proof (cases "e = CHR ''u''")
          case u: True
          show ?thesis
          proof (cases "decode_hex4 es")
            case None
            with "2.prems" nq bs Cons u show ?thesis by simp
          next
            case (Some n)
            show ?thesis
            proof (cases "n < 256")
              case True
              with "2.prems" nq bs Cons u Some
              have "scan_string (drop 4 es) (acc @ [char_of n]) = Inr (v, r)" by simp
              from "2.IH"(1) [OF nq bs Cons u Some True this]
              have "length r < length (drop 4 es)" .
              with Cons show ?thesis by simp
            next
              case False
              with "2.prems" nq bs Cons u Some show ?thesis by simp
            qed
          qed
        next
          case nu: False
          show ?thesis
          proof (cases "unescape e")
            case None
            with "2.prems" nq bs Cons nu show ?thesis by simp
          next
            case (Some ch)
            with "2.prems" nq bs Cons nu
            have "scan_string es (acc @ [ch]) = Inr (v, r)" by simp
            from "2.IH"(2) [OF nq bs Cons nu Some this] Cons show ?thesis by simp
          qed
        qed
      qed
    next
      case nbs: False
      show ?thesis
      proof (cases "(of_char c :: nat) < 32")
        case True
        with "2.prems" nq nbs show ?thesis by simp
      next
        case False
        with "2.prems" nq nbs have "scan_string cs (acc @ [c]) = Inr (v, r)" by simp
        from "2.IH"(3) [OF nq nbs False this] show ?thesis by simp
      qed
    qed
  qed
qed

lemma skip_ws_length: "length (skip_ws s) \<le> length s"
  by (simp add: skip_ws_def length_dropWhile_le)

lemma scan_number_shorter:
  "scan_number s = Some (Inr (v, r)) \<Longrightarrow> length r \<le> length s"
  by (auto simp: scan_number_def Let_def split: if_splits)

lemma scan_scalar_shorter:
  "scan_scalar s = Inr (v, r) \<Longrightarrow> length r \<le> length s"
  by (auto simp: scan_scalar_def split: list.splits if_splits sum.splits option.splits
           dest!: scan_string_shorter scan_number_shorter)

lemma skip_ws_Cons_shorter: "skip_ws s = c # r \<Longrightarrow> length r < length s"
  using skip_ws_length [of s] by simp

text \<open>
  The loop of \<open>JSONObject\<close>, from the character after the opening quotation mark of a
  key, with the pairs read so far.
\<close>

function scan_members ::
  "string \<Rightarrow> (string \<times> py_value) list \<Rightarrow> py_error + ((string \<times> py_value) list \<times> string)" where
  "scan_members s pairs =
     (case scan_string s [] of
        Inl e \<Rightarrow> Inl e
      | Inr (key, r1) \<Rightarrow>
         (case skip_ws r1 of
            [] \<Rightarrow> Inl JSONDecodeError
          | c # r2 \<Rightarrow>
             if c \<noteq> CHR '':'' then Inl JSONDecodeError
             else
              (case scan_scalar (skip_ws r2) of
                 Inl e \<Rightarrow> Inl e
               | Inr (val, r3) \<Rightarrow>
                  (case skip_ws r3 of
                     [] \<Rightarrow> Inl JSONDecodeError
                   | d # r4 \<Rightarrow>
                      if d = CHR ''}'' then Inr (pairs @ [(key, val)], r4)
                      else if d \<noteq> CHR '','' then Inl JSONDecodeError
                      else
                       (case skip_ws r4 of
                          [] \<Rightarrow> Inl JSONDecodeError
                        | q # r5 \<Rightarrow>
                           if q = CHR 0x22 then scan_members r5 (pairs @ [(key, val)])
                           else Inl JSONDecodeError)))))"
  by pat_completeness auto
termination
proof (relation "measure (\<lambda>(s, pairs). length s)")
  show "wf (measure (\<lambda>(s, pairs). length s))" by simp
next
  fix s :: string and pairs :: "(string \<times> py_value) list"
    and x key r1 c r2 y val r3 d r4 q r5
  assume "scan_string s [] = Inr x" "(key, r1) = x" "skip_ws r1 = c # r2"
    "scan_scalar (skip_ws r2) = Inr y" "(val, r3) = y" "skip_ws r3 = d # r4"
    "skip_ws r4 = q # r5"
  then have "length r1 < length s" "length r2 < length r1" "length r3 \<le> length (skip_ws r2)"
    "length r4 < length r3" "length r5 < length r4"
    by (auto dest: scan_string_shorter skip_ws_Cons_shorter scan_scalar_shorter)
  moreover have "length (skip_ws r2) \<le> length r2" by (rule skip_ws_length)
  ultimately have "length r5 < length s" by linarith
  then show "((r5, pairs @ [(key, val)]), (s, pairs)) \<in> measure (\<lambda>(s, pairs). length s)"
    by simp
qed

declare scan_members.simps [simp del]

text \<open>\<open>JSONObject\<close>, from the character after the opening brace.\<close>

definition scan_object :: "string \<Rightarrow> py_error + (py_dict \<times> string)" where
  "scan_object s =
     (case skip_ws s of
        [] \<Rightarrow> Inl JSONDecodeError
      | c # r \<Rightarrow>
         if c = CHR ''}'' then Inr ([], r)
         else if c = CHR 0x22 then
           (case scan_members r [] of
              Inl e \<Rightarrow> Inl e
            | Inr (pairs, r') \<Rightarrow> Inr (dict_of_pairs pairs, r'))
         else Inl JSONDecodeError)"

text \<open>\<open>scan_once\<close> where an element of the array stands: an object.\<close>

definition scan_element :: "string \<Rightarrow> py_error + (py_dict \<times> string)" where
  "scan_element s =
     (case s of
        [] \<Rightarrow> Inl JSONDecodeError
      | c # cs \<Rightarrow>
         if c = CHR ''{'' then scan_object cs
         else (case scan_scalar s of Inl e \<Rightarrow> Inl e | Inr _ \<Rightarrow> Inl OutsideModel))"

lemma scan_members_shorter:
  "scan_members s pairs = Inr (ps, r) \<Longrightarrow> length r < length s"
proof (induction s pairs rule: scan_members.induct)
  case (1 s pairs)
  from "1.prems" obtain key r1 where a: "scan_string s [] = Inr (key, r1)"
    by (subst (asm) scan_members.simps) (auto split: sum.splits)
  from "1.prems" a obtain r2 where b: "skip_ws r1 = CHR '':'' # r2"
    by (subst (asm) scan_members.simps) (auto split: list.splits if_splits)
  from "1.prems" a b obtain val r3 where c: "scan_scalar (skip_ws r2) = Inr (val, r3)"
    by (subst (asm) scan_members.simps) (auto split: sum.splits)
  from "1.prems" a b c obtain d r4 where d: "skip_ws r3 = d # r4"
    by (subst (asm) scan_members.simps) (auto split: list.splits)
  from a b c d have len: "length r1 < length s" "length r2 < length r1"
    "length r3 \<le> length (skip_ws r2)" "length r4 < length r3"
    by (auto dest: scan_string_shorter skip_ws_Cons_shorter scan_scalar_shorter)
  have len2: "length (skip_ws r2) \<le> length r2" by (rule skip_ws_length)
  show ?case
  proof (cases "d = CHR ''}''")
    case True
    with "1.prems" a b c d have "r = r4"
      by (subst (asm) scan_members.simps) simp
    moreover from len len2 have "length r4 < length s" by linarith
    ultimately show ?thesis by simp
  next
    case False
    with "1.prems" a b c d have dc: "d = CHR '',''"
      by (subst (asm) scan_members.simps) (auto split: if_splits)
    with "1.prems" a b c d False obtain r5 where e: "skip_ws r4 = CHR 0x22 # r5"
      by (subst (asm) scan_members.simps) (auto split: list.splits if_splits)
    with "1.prems" a b c d False dc
    have rec: "scan_members r5 (pairs @ [(key, val)]) = Inr (ps, r)"
      by (subst (asm) scan_members.simps) simp
    have nc: "\<not> CHR '':'' \<noteq> CHR '':''" by simp
    have "CHR '','' \<noteq> CHR ''}''" by simp
    from "1.IH" [OF a refl b nc c refl d [unfolded dc] this _ e refl rec]
    have "length r < length r5" by simp
    moreover from e have "length r5 < length r4" by (rule skip_ws_Cons_shorter)
    ultimately show ?thesis using len len2 by linarith
  qed
qed

lemma scan_element_shorter:
  "scan_element s = Inr (v, r) \<Longrightarrow> length r < length s"
proof -
  assume a: "scan_element s = Inr (v, r)"
  then obtain cs where s: "s = CHR ''{'' # cs" and o: "scan_object cs = Inr (v, r)"
    by (auto simp: scan_element_def split: list.splits if_splits sum.splits)
  from o obtain c r0 where w: "skip_ws cs = c # r0"
    by (auto simp: scan_object_def split: list.splits)
  then have l0: "length r0 < length cs" by (rule skip_ws_Cons_shorter)
  from o w have "length r \<le> length r0"
    by (auto simp: scan_object_def split: if_splits sum.splits dest!: scan_members_shorter)
  with l0 s show ?thesis by simp
qed

text \<open>
  The loop of \<open>JSONArray\<close>, from the first character of an element, with the values read
  so far.
\<close>

function scan_elements :: "string \<Rightarrow> py_dict list \<Rightarrow> py_error + (py_dict list \<times> string)" where
  "scan_elements s vals =
     (case scan_element s of
        Inl e \<Rightarrow> Inl e
      | Inr (val, r1) \<Rightarrow>
         (case skip_ws r1 of
            [] \<Rightarrow> Inl JSONDecodeError
          | c # r2 \<Rightarrow>
             if c = CHR '']'' then Inr (vals @ [val], r2)
             else if c \<noteq> CHR '','' then Inl JSONDecodeError
             else scan_elements (skip_ws r2) (vals @ [val])))"
  by pat_completeness auto
termination
proof (relation "measure (\<lambda>(s, vals). length s)")
  show "wf (measure (\<lambda>(s, vals). length s))" by simp
next
  fix s :: string and vals :: "py_dict list" and x val r1 c r2
  assume "scan_element s = Inr x" "(val, r1) = x" "skip_ws r1 = c # r2"
  then have "length r1 < length s" "length r2 < length r1"
    by (auto dest: scan_element_shorter skip_ws_Cons_shorter)
  moreover have "length (skip_ws r2) \<le> length r2" by (rule skip_ws_length)
  ultimately have "length (skip_ws r2) < length s" by linarith
  then show "((skip_ws r2, vals @ [val]), (s, vals)) \<in> measure (\<lambda>(s, vals). length s)"
    by simp
qed

declare scan_elements.simps [simp del]

text \<open>\<open>JSONArray\<close>, from the character after the opening bracket.\<close>

definition scan_array :: "string \<Rightarrow> py_error + (py_dict list \<times> string)" where
  "scan_array s =
     (case skip_ws s of
        [] \<Rightarrow> Inl JSONDecodeError
      | c # r \<Rightarrow> if c = CHR '']'' then Inr ([], r) else scan_elements (skip_ws s) [])"

text \<open>
  \<open>json.loads\<close>: white space, one value, white space, the end of the text. The value of
  the corpus file is an array.
\<close>

definition json_loads :: "string \<Rightarrow> py_error + py_dict list" where
  "json_loads text =
     (case skip_ws text of
        [] \<Rightarrow> Inl JSONDecodeError
      | c # r \<Rightarrow>
         if c = CHR ''['' then
           (case scan_array r of
              Inl e \<Rightarrow> Inl e
            | Inr (data, rest) \<Rightarrow> if skip_ws rest = [] then Inr data else Inl JSONDecodeError)
         else
           (case scan_element (c # r) of
              Inl e \<Rightarrow> Inl e
            | Inr _ \<Rightarrow> Inl OutsideModel))"

definition load_slpc_data :: "string \<Rightarrow> file_system \<Rightarrow> py_error + py_dict list" where
  "load_slpc_data file_path fs =
     (case fs file_path of
        None \<Rightarrow> Inl FileNotFoundError
      | Some text \<Rightarrow> json_loads text)"

section \<open>Environment and backends\<close>

text \<open>
  The process environment after \<open>load_dotenv()\<close>: \<open>os.getenv(k)\<close> is \<open>env k\<close>, \<open>None\<close>
  for an unset variable. A value is true when it is set and not the empty string.
\<close>

type_synonym environ = "string \<Rightarrow> string option"

definition truthy :: "string option \<Rightarrow> bool" where
  "truthy v = (case v of None \<Rightarrow> False | Some s \<Rightarrow> s \<noteq> [])"

text \<open>
  The calls that leave the program, in the order they are made. The embedding model and
  the Chroma store are libraries outside the repository: a backend gives the outcome of
  each call on the persisted state of the store (\<open>Some e\<close> or \<open>Inl e\<close> when the call
  raises \<open>e\<close>). The functions below thread that state and return the calls made together
  with their result; a successful build returns the new state of the store.
\<close>

datatype io_event =
    ReadJson string
  | InitEmbeddings
  | ChromaFromDocuments "document list" string string
  | ChromaOpen "string option" string
  | SimilaritySearch string nat

record ('h, 's) backend =
  embeddings_init :: "py_error option"
  from_documents :: "document list \<Rightarrow> string \<Rightarrow> string \<Rightarrow> 's \<Rightarrow> py_error + 's"
  chroma_open :: "string option \<Rightarrow> string \<Rightarrow> 's \<Rightarrow> py_error + 'h"
  similarity_search :: "'h \<Rightarrow> string \<Rightarrow> nat \<Rightarrow> 's \<Rightarrow> py_error + document list"

definition build_slpc_vectordb ::
  "environ \<Rightarrow> file_system \<Rightarrow> ('h, 's) backend \<Rightarrow> 's \<Rightarrow> io_event list \<times> (py_error + 's)" where
  "build_slpc_vectordb env fs be st =
     (let slpc_json_path = env ''SLPC_JSON_PATH'';
          persist_dir_path = env ''PERSIST_DIRECTORY_PATH'';
          collection_name = env ''SLPC_COLLECTION_NAME''
      in if \<not> (truthy slpc_json_path \<and> truthy persist_dir_path \<and> truthy collection_name)
         then ([], Inl EnvironmentError)
         else
          (case (slpc_json_path, persist_dir_path, collection_name) of
             (Some path, Some dir, Some name) \<Rightarrow>
               (case load_slpc_data path fs of
                  Inl e \<Rightarrow> ([ReadJson path], Inl e)
                | Inr slpc_data \<Rightarrow>
                   (case prepare_documents slpc_data of
                      Inl e \<Rightarrow> ([ReadJson path], Inl e)
                    | Inr documents \<Rightarrow>
                       (case embeddings_init be of
                          Some e \<Rightarrow> ([ReadJson path, InitEmbeddings], Inl e)
                        | None \<Rightarrow>
                           (case from_documents be documents dir name st of
                              Inl e \<Rightarrow>
                                ([ReadJson path, InitEmbeddings,
                                  ChromaFromDocuments documents dir name], Inl e)
                            | Inr st' \<Rightarrow>
                                ([ReadJson path, InitEmbeddings,
                                  ChromaFromDocuments documents dir name], Inr st')))))
           | _ \<Rightarrow> ([], Inl EnvironmentError)))"

section \<open>The search tool\<close>

definition DEFAULT_TOP_K :: nat where
  "DEFAULT_TOP_K = 3"

definition format_result :: "document \<Rightarrow> py_dict" where
  "format_result doc =
     [(''section'', dict_get (metadata doc) ''section''),
      (''section_title'', dict_get (metadata doc) ''section_title''),
      (''chapter'', dict_get (metadata doc) ''chapter''),
      (''chapter_title'', dict_get (metadata doc) ''chapter_title''),
      (''content'', PyStr (page_content doc))]"

definition search_slpc_sections ::
  "environ \<Rightarrow> ('h, 's) backend \<Rightarrow> 's \<Rightarrow> string \<Rightarrow> io_event list \<times> (py_error + py_dict list)" where
  "search_slpc_sections env be st query =
     (let persist_dir_path = env ''PERSIST_DIRECTORY_PATH'' in
      if \<not> truthy persist_dir_path then ([], Inl EnvironmentError)
      else
       (case persist_dir_path of
          None \<Rightarrow> ([], Inl EnvironmentError)
        | Some dir \<Rightarrow>
           (let collection_name = env ''SLPC_COLLECTION_NAME'' in
            case embeddings_init be of
              Some e \<Rightarrow> ([InitEmbeddings], Inl e)
            | None \<Rightarrow>
               (case chroma_open be collection_name dir st of
                  Inl e \<Rightarrow> ([InitEmbeddings, ChromaOpen collection_name dir], Inl e)
                | Inr vector_db \<Rightarrow>
                   (case similarity_search be vector_db query DEFAULT_TOP_K st of
                      Inl e \<Rightarrow>
                        ([InitEmbeddings, ChromaOpen collection_name dir,
                          SimilaritySearch query DEFAULT_TOP_K], Inl e)
                    | Inr docs \<Rightarrow>
                        ([InitEmbeddings, ChromaOpen collection_name dir,
                          SimilaritySearch query DEFAULT_TOP_K],
                         Inr (map format_result docs)))))))"

text \<open>A backend whose calls all succeed, on an empty index.\<close>

definition accepting_backend :: "(unit, unit) backend" where
  "accepting_backend =
     \<lparr>embeddings_init = None,
      from_documents = (\<lambda>_ _ _ st. Inr st),
      chroma_open = (\<lambda>_ _ _. Inr ()),
      similarity_search = (\<lambda>_ _ _ _. Inr [])\<rparr>"

text \<open>
  A store that adds. \<open>Chroma.from_documents\<close> opens the named collection of the directory,
  creating it when it does not exist (\<open>get_or_create_collection\<close>), and adds the documents
  to it: an existing collection keeps its entries. \<open>similarity_search\<close> gives the \<open>k\<close> best
  entries of the collection; \<open>rank\<close> stands for the order by embedding distance. The state
  gives the entries of the collection of a directory and a name.
\<close>

type_synonym collections = "string \<times> string \<Rightarrow> document list"

definition adding_store ::
  "(string \<Rightarrow> document list \<Rightarrow> document list) \<Rightarrow> (string \<times> string, collections) backend" where
  "adding_store rank =
     \<lparr>embeddings_init = None,
      from_documents = (\<lambda>docs dir name st. Inr (st((dir, name) := st (dir, name) @ docs))),
      chroma_open = (\<lambda>name dir st.
         case name of None \<Rightarrow> Inl (OtherError ''collection name'') | Some n \<Rightarrow> Inr (dir, n)),
      similarity_search = (\<lambda>h query k st. Inr (take k (rank query (st h))))\<rparr>"

text \<open>
  \<open>Build(R1, name)\<close>, \<open>Build(R2, name)\<close>, then a query: each build receives its records
  through the corpus file named by \<open>SLPC_JSON_PATH\<close>.
\<close>

definition build_records ::
  "environ \<Rightarrow> ('h, 's) backend \<Rightarrow> py_dict list \<Rightarrow> 's \<Rightarrow> py_error + 's" where
  "build_records env be records st =
     (case env ''SLPC_JSON_PATH'' of
        None \<Rightarrow> Inl EnvironmentError
      | Some path \<Rightarrow>
          snd (build_slpc_vectordb env (save_to_json records path Map.empty) be st))"

definition rebuild_then_query ::
  "environ \<Rightarrow> ('h, 's) backend \<Rightarrow> 's \<Rightarrow> py_dict list \<Rightarrow> py_dict list \<Rightarrow> string
     \<Rightarrow> py_error + py_dict list" where
  "rebuild_then_query env be st R1 R2 query =
     (case build_records env be R1 st of
        Inl e \<Rightarrow> Inl e
      | Inr st1 \<Rightarrow>
         (case build_records env be R2 st1 of
            Inl e \<Rightarrow> Inl e
          | Inr st2 \<Rightarrow> snd (search_slpc_sections env be st2 query)))"

text \<open>What the specification asks of a document unit.\<close>

definition has_fields :: "py_dict \<Rightarrow> py_value \<times> string \<times> int \<times> string \<times> string \<Rightarrow> bool" where
  "has_fields entry f =
     (case f of (ch, ch_title, n, title, body) \<Rightarrow>
        map_of entry ''chapter'' = Some ch \<and>
        map_of entry ''chapter_title'' = Some (PyStr ch_title) \<and>
        map_of entry ''Section'' = Some (PyInt n) \<and>
        map_of entry ''section_title'' = Some (PyStr title) \<and>
        map_of entry ''section_desc'' = Some (PyStr body))"

definition spec_document_unit :: "py_value \<times> string \<times> int \<times> string \<times> string \<Rightarrow> document" where
  "spec_document_unit f =
     (case f of (ch, ch_title, n, title, body) \<Rightarrow>
        \<lparr>page_content = ''Section '' @ str_int n @ '': '' @ title @ [CHR 0x0A, CHR 0x0A] @ body,
         metadata = [(''chapter'', ch), (''chapter_title'', PyStr ch_title),
                     (''section'', PyInt n), (''section_title'', PyStr title)]\<rparr>)"

lemma make_document_fields:
  "has_fields entry f \<Longrightarrow> make_document entry = Inr (spec_document_unit f)"
  by (cases f) (simp add: has_fields_def make_document_def getitem_def spec_document_unit_def)

lemma prepare_documents_fields:
  "list_all2 has_fields slpc_data fs \<Longrightarrow>
   prepare_documents slpc_data = Inr (map spec_document_unit fs)"
  by (induction slpc_data fs rule: list_all2_induct) (simp_all add: make_document_fields)

lemma build_fails_fast:
  "\<not> (truthy (env ''SLPC_JSON_PATH'') \<and> truthy (env ''PERSIST_DIRECTORY_PATH'')
       \<and> truthy (env ''SLPC_COLLECTION_NAME'')) \<Longrightarrow>
   build_slpc_vectordb env fs be st = ([], Inl EnvironmentError)"
  by (simp add: build_slpc_vectordb_def)

lemma search_fails_fast_without_location:
  "\<not> truthy (env ''PERSIST_DIRECTORY_PATH'') \<Longrightarrow>
   search_slpc_sections env be st query = ([], Inl EnvironmentError)"
  by (simp add: search_slpc_sections_def)

section \<open>Reading back what was written\<close>

subsection \<open>Strings\<close>

lemma hex_val_hex_digit: "k < 16 \<Longrightarrow> hex_val (hex_digit k) = Some k"
  by (auto simp: hex_val_def hex_digit_def Let_def)

lemma decode_hex4_control:
  "n < 32 \<Longrightarrow>
   decode_hex4 (CHR ''0'' # CHR ''0'' # hex_digit (n div 16) # hex_digit (n mod 16) # xs) = Some n"
proof -
  assume n: "n < 32"
  then have a: "hex_val (hex_digit (n div 16)) = Some (n div 16)"
    by (intro hex_val_hex_digit) simp
  have b: "hex_val (hex_digit (n mod 16)) = Some (n mod 16)"
    by (intro hex_val_hex_digit) simp
  have z: "hex_val (CHR ''0'') = Some 0" by (simp add: hex_val_def)
  show ?thesis by (simp add: decode_hex4_def a b z)
qed

lemma scan_escape_char:
  "scan_string (escape_char c @ xs) acc = scan_string xs (acc @ [c])"
proof -
  consider (quote) "c = CHR 0x22" | (backslash) "c = CHR 0x5C" | (nl) "c = CHR 0x0A"
    | (cr) "c = CHR 0x0D" | (tab) "c = CHR 0x09" | (bs) "c = CHR 0x08" | (ff) "c = CHR 0x0C"
    | (control) "c \<noteq> CHR 0x22" "c \<noteq> CHR 0x5C" "c \<noteq> CHR 0x0A" "c \<noteq> CHR 0x0D" "c \<noteq> CHR 0x09"
        "c \<noteq> CHR 0x08" "c \<noteq> CHR 0x0C" "(of_char c :: nat) < 32"
    | (plain) "c \<noteq> CHR 0x22" "c \<noteq> CHR 0x5C" "c \<noteq> CHR 0x0A" "c \<noteq> CHR 0x0D" "c \<noteq> CHR 0x09"
        "c \<noteq> CHR 0x08" "c \<noteq> CHR 0x0C" "\<not> (of_char c :: nat) < 32"
    by blast
  then show ?thesis
  proof cases
    case quote
    then show ?thesis by (simp add: escape_char_def unescape_def)
  next
    case backslash
    then show ?thesis by (simp add: escape_char_def unescape_def)
  next
    case nl
    then show ?thesis by (simp add: escape_char_def unescape_def)
  next
    case cr
    then show ?thesis by (simp add: escape_char_def unescape_def)
  next
    case tab
    then show ?thesis by (simp add: escape_char_def unescape_def)
  next
    case bs
    then show ?thesis by (simp add: escape_char_def unescape_def)
  next
    case ff
    then show ?thesis by (simp add: escape_char_def unescape_def)
  next
    case control
    then show ?thesis
      by (simp add: escape_char_def decode_hex4_control)
  next
    case plain
    then show ?thesis by (simp add: escape_char_def)
  qed
qed

lemma scan_string_escaped:
  "scan_string (concat (map escape_char s) @ CHR 0x22 # rest) acc = Inr (acc @ s, rest)"
proof (induction s arbitrary: acc)
  case Nil
  show ?case by simp
next
  case (Cons c s)
  have "scan_string (concat (map escape_char (c # s)) @ CHR 0x22 # rest) acc =
        scan_string (escape_char c @ (concat (map escape_char s) @ CHR 0x22 # rest)) acc"
    by simp
  also have "\<dots> = scan_string (concat (map escape_char s) @ CHR 0x22 # rest) (acc @ [c])"
    by (rule scan_escape_char)
  also have "\<dots> = Inr ((acc @ [c]) @ s, rest)" by (rule Cons.IH)
  finally show ?case by simp
qed

subsection \<open>Integers\<close>

lemma str_nat_small: "n < 10 \<Longrightarrow> str_nat n = [char_of (48 + n)]"
  by (subst str_nat.simps) simp

lemma str_nat_large:
  "\<not> n < 10 \<Longrightarrow> str_nat n = str_nat (n div 10) @ [char_of (48 + n mod 10)]"
  by (subst str_nat.simps) simp

lemma char_of_48: "char_of (48 :: nat) = CHR ''0''"
  by code_simp

lemma is_digit_char_of: "(d :: nat) < 10 \<Longrightarrow> is_digit (char_of (48 + d))"
  by (simp add: is_digit_def)

lemma digit_val_char_of: "(d :: nat) < 10 \<Longrightarrow> digit_val (char_of (48 + d)) = int d"
  by (simp add: digit_val_def)

lemma str_nat_nonempty: "str_nat n \<noteq> []"
  by (cases "n < 10") (simp_all add: str_nat_small str_nat_large)

lemma str_nat_digits: "c \<in> set (str_nat n) \<Longrightarrow> is_digit c"
proof (induction n arbitrary: c rule: str_nat.induct)
  case (1 n)
  show ?case
  proof (cases "n < 10")
    case True
    with "1.prems" show ?thesis by (simp add: str_nat_small is_digit_char_of)
  next
    case False
    with "1.prems" have "c \<in> set (str_nat (n div 10)) \<or> c = char_of (48 + n mod 10)"
      by (auto simp: str_nat_large)
    then show ?thesis
    proof
      assume "c \<in> set (str_nat (n div 10))"
      then show ?thesis by (rule "1.IH" [OF False])
    next
      assume "c = char_of (48 + n mod 10)"
      then show ?thesis by (simp add: is_digit_char_of)
    qed
  qed
qed

lemma int_of_digits_snoc: "int_of_digits (ds @ [c]) = 10 * int_of_digits ds + digit_val c"
  by (simp add: int_of_digits_def)

lemma int_of_digits_str_nat: "int_of_digits (str_nat n) = int n"
proof (induction n rule: str_nat.induct)
  case (1 n)
  show ?case
  proof (cases "n < 10")
    case True
    then show ?thesis by (simp add: str_nat_small int_of_digits_def digit_val_char_of)
  next
    case False
    have "int_of_digits (str_nat n) = 10 * int (n div 10) + int (n mod 10)"
      by (simp add: str_nat_large [OF False] int_of_digits_snoc "1.IH" [OF False] digit_val_char_of)
    also have "\<dots> = int n" by presburger
    finally show ?thesis .
  qed
qed

lemma hd_str_nat_zero: "hd (str_nat n) = CHR ''0'' \<Longrightarrow> n = 0"
proof (induction n rule: str_nat.induct)
  case (1 n)
  show ?case
  proof (cases "n < 10")
    case True
    with "1.prems" have "char_of (48 + n) = CHR ''0''"
      by (simp add: str_nat_small)
    then have "(of_char (char_of (48 + n)) :: nat) = of_char (CHR ''0'')" by (rule arg_cong)
    with True show ?thesis by simp
  next
    case False
    with "1.prems" have "hd (str_nat (n div 10)) = CHR ''0''"
      by (simp add: str_nat_large str_nat_nonempty)
    from "1.IH" [OF False this] False show ?thesis by simp
  qed
qed

lemma takeWhile_digits_append:
  "\<forall>c\<in>set ds. is_digit c \<Longrightarrow> \<not> is_digit x \<Longrightarrow> takeWhile is_digit (ds @ x # r) = ds"
  by (induction ds) auto

lemma integer_part_str_nat:
  "\<not> is_digit x \<Longrightarrow> integer_part (str_nat n @ x # r) = str_nat n"
proof -
  assume x: "\<not> is_digit x"
  obtain d ds where s: "str_nat n = d # ds"
    using str_nat_nonempty [of n] by (cases "str_nat n") auto
  show ?thesis
  proof (cases "d = CHR ''0''")
    case True
    with s have "n = 0" using hd_str_nat_zero [of n] by simp
    then have "str_nat n = ''0''" by (simp add: str_nat_small char_of_48)
    then show ?thesis by (simp add: integer_part_def)
  next
    case False
    have "takeWhile is_digit (str_nat n @ x # r) = str_nat n"
      using str_nat_digits x by (intro takeWhile_digits_append) blast+
    with s False show ?thesis by (simp add: integer_part_def)
  qed
qed

definition ends_scalar :: "char \<Rightarrow> bool" where
  "ends_scalar x = (x = CHR '','' \<or> x = CHR 0x0A)"

lemma ends_scalar_facts:
  "ends_scalar x \<Longrightarrow> \<not> is_digit x \<and> x \<noteq> CHR ''.'' \<and> x \<noteq> CHR ''e'' \<and> x \<noteq> CHR ''E''"
  by (auto simp: ends_scalar_def is_digit_def)

lemma hd_str_nat_not_minus: "hd (str_nat n) \<noteq> CHR ''-''"
proof -
  have "hd (str_nat n) \<in> set (str_nat n)" using str_nat_nonempty by simp
  then have "is_digit (hd (str_nat n))" by (rule str_nat_digits)
  then show ?thesis by (auto simp: is_digit_def)
qed

lemma scan_number_str_int:
  assumes "ends_scalar x"
  shows "scan_number (str_int i @ x # r) = Some (Inr (PyInt i, x # r))"
proof -
  from assms have x: "\<not> is_digit x" "x \<noteq> CHR ''.''" "x \<noteq> CHR ''e''" "x \<noteq> CHR ''E''"
    using ends_scalar_facts by blast+
  then have nf: "\<not> has_fraction (x # r)" "\<not> has_exponent (x # r)"
    by (auto simp: has_fraction_def has_exponent_def split: list.splits)
  show ?thesis
  proof (cases "i < 0")
    case True
    then have s: "str_int i @ x # r = CHR ''-'' # (str_nat (nat (- i)) @ x # r)"
      by (simp add: str_int_def)
    from True have v: "- int (nat (- i)) = i" by simp
    show ?thesis
      unfolding s scan_number_def
      using True
      by (simp add: Let_def integer_part_str_nat [OF x(1)] str_nat_nonempty nf
                    int_of_digits_str_nat)
  next
    case False
    then have s: "str_int i @ x # r = str_nat (nat i) @ x # r"
      by (simp add: str_int_def)
    obtain d ds where c: "str_nat (nat i) = d # ds"
      using str_nat_nonempty [of "nat i"] by (cases "str_nat (nat i)") auto
    with hd_str_nat_not_minus [of "nat i"] have d: "d \<noteq> CHR ''-''" by simp
    from False have v: "int (nat i) = i" by simp
    have ip: "integer_part (d # ds @ x # r) = d # ds"
      using integer_part_str_nat [OF x(1), of "nat i" r] c by simp
    show ?thesis
      unfolding s scan_number_def c
      using d nf v
      by (simp add: Let_def ip int_of_digits_str_nat [of "nat i", unfolded c] del: of_nat_nat)
  qed
qed

subsection \<open>White space and separators\<close>

lemma skip_ws_nonws: "\<not> is_json_ws c \<Longrightarrow> skip_ws (c # s) = c # s"
  by (simp add: skip_ws_def)

lemma skip_ws_space: "skip_ws (CHR '' '' # s) = skip_ws s"
  by (simp add: skip_ws_def is_json_ws_def)

lemma skip_ws_newline_indent: "skip_ws (newline_indent n @ s) = skip_ws s"
proof -
  have "\<And>x. x \<in> set (newline_indent n) \<Longrightarrow> is_json_ws x"
    by (auto simp: newline_indent_def is_json_ws_def)
  then show ?thesis
    unfolding skip_ws_def by (rule dropWhile_append2)
qed

lemma newline_indent_Cons: "newline_indent n = CHR 0x0A # replicate (2 * n) (CHR '' '')"
  by (simp add: newline_indent_def)

lemma join_Cons: "join sep (x # xs) = x @ (if xs = [] then [] else sep @ join sep xs)"
  by (cases xs) simp_all

lemma not_ws_chars:
  "\<not> is_json_ws (CHR 0x22)" "\<not> is_json_ws (CHR '':'')" "\<not> is_json_ws (CHR '','')"
  "\<not> is_json_ws (CHR ''}'')" "\<not> is_json_ws (CHR '']'')" "\<not> is_json_ws (CHR ''{'')"
  "\<not> is_json_ws (CHR ''['')"
  by (simp_all add: is_json_ws_def)

subsection \<open>Scalars\<close>

lemma str_int_start: "\<exists>d ds. str_int i = d # ds \<and> (d = CHR ''-'' \<or> is_digit d)"
proof (cases "i < 0")
  case True
  then show ?thesis by (simp add: str_int_def)
next
  case False
  obtain d ds where c: "str_nat (nat i) = d # ds"
    using str_nat_nonempty [of "nat i"] by (cases "str_nat (nat i)") auto
  then have "d \<in> set (str_nat (nat i))" by simp
  then have "is_digit d" by (rule str_nat_digits)
  with c False show ?thesis by (simp add: str_int_def)
qed

lemma json_scalar_start: "\<exists>c t. json_scalar v = c # t \<and> \<not> is_json_ws c"
proof (cases v)
  case PyNone
  then show ?thesis by (simp add: is_json_ws_def)
next
  case (PyInt i)
  from str_int_start [of i] obtain d ds where "str_int i = d # ds" "d = CHR ''-'' \<or> is_digit d"
    by blast
  with PyInt show ?thesis by (auto simp: is_json_ws_def is_digit_def)
next
  case (PyStr s)
  then show ?thesis by (simp add: json_string_def is_json_ws_def)
qed

lemma skip_ws_json_scalar: "skip_ws (json_scalar v @ s) = json_scalar v @ s"
proof -
  from json_scalar_start [of v] obtain c t where "json_scalar v = c # t" "\<not> is_json_ws c"
    by blast
  then show ?thesis by (simp add: skip_ws_nonws)
qed

lemma scan_scalar_json:
  assumes "ends_scalar x"
  shows "scan_scalar (json_scalar v @ x # r) = Inr (v, x # r)"
proof (cases v)
  case PyNone
  then show ?thesis by (simp add: scan_scalar_def starts_with_def)
next
  case (PyStr s)
  have "scan_string (concat (map escape_char s) @ CHR 0x22 # x # r) [] = Inr ([] @ s, x # r)"
    by (rule scan_string_escaped)
  with PyStr show ?thesis by (simp add: scan_scalar_def json_string_def)
next
  case (PyInt i)
  from str_int_start [of i] obtain d ds where s: "str_int i = d # ds"
    and d: "d = CHR ''-'' \<or> is_digit d" by blast
  from d have nd: "d \<noteq> CHR 0x22" "d \<noteq> CHR ''{''" "d \<noteq> CHR ''[''" "d \<noteq> CHR ''n''"
    "d \<noteq> CHR ''t''" "d \<noteq> CHR ''f''"
    by (auto simp: is_digit_def)
  have num: "scan_number (d # ds @ x # r) = Some (Inr (PyInt i, x # r))"
    using scan_number_str_int [OF assms, of i r] s by simp
  from PyInt show ?thesis
    by (simp add: scan_scalar_def s nd starts_with_def num)
qed

subsection \<open>Objects\<close>

lemma dict_set_fresh: "k \<notin> fst ` set d \<Longrightarrow> dict_set d k v = d @ [(k, v)]"
  by (induction d) auto

lemma foldl_dict_set_distinct:
  "distinct (map fst (d @ ps)) \<Longrightarrow>
   foldl (\<lambda>d kv. dict_set d (fst kv) (snd kv)) d ps = d @ ps"
proof (induction ps arbitrary: d)
  case Nil
  then show ?case by simp
next
  case (Cons p ps)
  from Cons.prems have fresh: "fst p \<notin> fst ` set d" by auto
  from Cons.prems have "distinct (map fst ((d @ [p]) @ ps))" by simp
  from Cons.IH [OF this] show ?case
    by (simp add: dict_set_fresh [OF fresh])
qed

lemma dict_of_pairs_distinct: "distinct (map fst ps) \<Longrightarrow> dict_of_pairs ps = ps"
  using foldl_dict_set_distinct [of "[]" ps] by (simp add: dict_of_pairs_def)

lemma scan_members_json:
  "ms \<noteq> [] \<Longrightarrow>
   \<exists>body. join ('','' @ newline_indent 2) (map json_member ms) @ newline_indent 1 @ CHR ''}'' # rest
             = CHR 0x22 # body \<and>
           scan_members body pairs = Inr (pairs @ ms, rest)"
proof (induction ms arbitrary: pairs)
  case Nil
  then show ?case by simp
next
  case (Cons m ms)
  obtain k v where m: "m = (k, v)" by (cases m)
  define tail where "tail = (if ms = [] then [] else ('','' @ newline_indent 2)
      @ join ('','' @ newline_indent 2) (map json_member ms)) @ newline_indent 1 @ CHR ''}'' # rest"
  define body where "body = concat (map escape_char k) @ CHR 0x22 # CHR '':'' # CHR '' '' #
      json_scalar v @ tail"
  have enc: "join ('','' @ newline_indent 2) (map json_member (m # ms)) @ newline_indent 1
      @ CHR ''}'' # rest = CHR 0x22 # body"
    by (simp add: join_Cons m json_member_def json_string_def body_def tail_def)
  have key: "scan_string body [] = Inr (k, CHR '':'' # CHR '' '' # json_scalar v @ tail)"
    unfolding body_def using scan_string_escaped [of k _ "[]"] by simp
  have colon: "skip_ws (CHR '':'' # CHR '' '' # json_scalar v @ tail)
      = CHR '':'' # CHR '' '' # json_scalar v @ tail"
    by (simp add: skip_ws_nonws not_ws_chars)
  have sp: "skip_ws (CHR '' '' # json_scalar v @ tail) = json_scalar v @ tail"
    by (simp add: skip_ws_space skip_ws_json_scalar)
  show ?case
  proof (cases "ms = []")
    case True
    then have t: "tail = CHR 0x0A # (replicate 2 (CHR '' '') @ CHR ''}'' # rest)"
      by (simp add: tail_def newline_indent_Cons)
    have val: "scan_scalar (json_scalar v @ tail) = Inr (v, tail)"
      unfolding t by (rule scan_scalar_json) (simp add: ends_scalar_def)
    have after: "skip_ws tail = CHR ''}'' # rest"
      using True skip_ws_newline_indent [of 1 "CHR ''}'' # rest"]
      by (simp add: tail_def skip_ws_nonws not_ws_chars)
    have "scan_members body pairs = Inr (pairs @ [(k, v)], rest)"
      by (subst scan_members.simps) (simp add: key colon sp val after)
    with enc True m show ?thesis by simp
  next
    case False
    from Cons.IH [OF False, of "pairs @ [(k, v)]"] obtain body' where
      nxt: "join ('','' @ newline_indent 2) (map json_member ms) @ newline_indent 1 @ CHR ''}'' # rest
              = CHR 0x22 # body'"
      and rec: "scan_members body' (pairs @ [(k, v)]) = Inr ((pairs @ [(k, v)]) @ ms, rest)"
      by blast
    from False have t: "tail = CHR '','' # (newline_indent 2 @ CHR 0x22 # body')"
      using nxt by (simp add: tail_def)
    have val: "scan_scalar (json_scalar v @ tail) = Inr (v, tail)"
      unfolding t by (rule scan_scalar_json) (simp add: ends_scalar_def)
    have after: "skip_ws tail = CHR '','' # (newline_indent 2 @ CHR 0x22 # body')"
      unfolding t by (simp add: skip_ws_nonws not_ws_chars)
    have quote: "skip_ws (newline_indent 2 @ CHR 0x22 # body') = CHR 0x22 # body'"
      by (simp add: skip_ws_newline_indent skip_ws_nonws not_ws_chars)
    have "scan_members body pairs = Inr (pairs @ (k, v) # ms, rest)"
      by (subst scan_members.simps) (simp add: key colon sp val after quote rec)
    with enc m show ?thesis by simp
  qed
qed

lemma json_object_start: "\<exists>t. json_object d = CHR ''{'' # t"
  by (simp add: json_object_def)

lemma scan_element_json:
  assumes "distinct (map fst d)"
  shows "scan_element (json_object d @ rest) = Inr (d, rest)"
proof (cases "d = []")
  case True
  then show ?thesis
    by (simp add: scan_element_def json_object_def scan_object_def skip_ws_nonws not_ws_chars)
next
  case False
  from scan_members_json [OF False, of rest "[]"] obtain body where
    enc: "join ('','' @ newline_indent 2) (map json_member d) @ newline_indent 1 @ CHR ''}'' # rest
             = CHR 0x22 # body"
    and mem: "scan_members body [] = Inr (d, rest)"
    by auto
  have obj: "json_object d @ rest = CHR ''{'' # (newline_indent 2 @ CHR 0x22 # body)"
    using False enc by (simp add: json_object_def)
  have ws: "skip_ws (newline_indent 2 @ CHR 0x22 # body) = CHR 0x22 # body"
    by (simp add: skip_ws_newline_indent skip_ws_nonws not_ws_chars)
  show ?thesis
    unfolding obj
    by (simp add: scan_element_def scan_object_def ws mem dict_of_pairs_distinct [OF assms])
qed

subsection \<open>Arrays\<close>

lemma scan_elements_json:
  "ds \<noteq> [] \<Longrightarrow> \<forall>d\<in>set ds. distinct (map fst d) \<Longrightarrow>
   scan_elements (join ('','' @ newline_indent 1) (map json_object ds) @ newline_indent 0
                    @ CHR '']'' # rest) vals
     = Inr (vals @ ds, rest)"
proof (induction ds arbitrary: vals)
  case Nil
  then show ?case by simp
next
  case (Cons d ds)
  define tail where "tail = (if ds = [] then [] else ('','' @ newline_indent 1)
      @ join ('','' @ newline_indent 1) (map json_object ds)) @ newline_indent 0 @ CHR '']'' # rest"
  have enc: "join ('','' @ newline_indent 1) (map json_object (d # ds)) @ newline_indent 0
      @ CHR '']'' # rest = json_object d @ tail"
    by (simp add: join_Cons tail_def)
  from Cons.prems(2) have dd: "distinct (map fst d)" by simp
  have el: "scan_element (json_object d @ tail) = Inr (d, tail)"
    by (rule scan_element_json [OF dd])
  show ?case
  proof (cases "ds = []")
    case True
    have after: "skip_ws tail = CHR '']'' # rest"
      using True skip_ws_newline_indent [of 0 "CHR '']'' # rest"]
      by (simp add: tail_def skip_ws_nonws not_ws_chars)
    have "scan_elements (json_object d @ tail) vals = Inr (vals @ [d], rest)"
      by (subst scan_elements.simps) (simp add: el after)
    with enc True show ?thesis by simp
  next
    case False
    from Cons.prems(2) have rest_ok: "\<forall>d\<in>set ds. distinct (map fst d)" by simp
    define more where "more = join ('','' @ newline_indent 1) (map json_object ds)
        @ newline_indent 0 @ CHR '']'' # rest"
    from False obtain d' ds' where ds: "ds = d' # ds'" by (cases ds) auto
    from json_object_start [of d'] obtain t where "json_object d' = CHR ''{'' # t" by blast
    then have start: "\<exists>t. more = CHR ''{'' # t"
      by (simp add: more_def ds join_Cons)
    from False have t: "tail = CHR '','' # (newline_indent 1 @ more)"
      by (simp add: tail_def more_def)
    have after: "skip_ws tail = CHR '','' # (newline_indent 1 @ more)"
      unfolding t by (simp add: skip_ws_nonws not_ws_chars)
    from start have ws: "skip_ws more = more"
      by (auto simp: skip_ws_nonws not_ws_chars)
    have rec: "scan_elements more (vals @ [d]) = Inr ((vals @ [d]) @ ds, rest)"
      unfolding more_def by (rule Cons.IH [OF False rest_ok])
    have "scan_elements (json_object d @ tail) vals = Inr (vals @ d # ds, rest)"
      by (subst scan_elements.simps) (simp add: el after skip_ws_newline_indent ws rec)
    with enc show ?thesis by simp
  qed
qed

lemma json_loads_json_array:
  assumes "\<forall>d\<in>set data. distinct (map fst d)"
  shows "json_loads (json_array data) = Inr data"
proof (cases "data = []")
  case True
  then show ?thesis
    by (simp add: json_loads_def json_array_def scan_array_def skip_ws_nonws not_ws_chars
                  skip_ws_def)
next
  case False
  define more where "more = join ('','' @ newline_indent 1) (map json_object data)
      @ newline_indent 0 @ CHR '']'' # []"
  from False obtain d' ds' where ds: "data = d' # ds'" by (cases data) auto
  from json_object_start [of d'] obtain t where "json_object d' = CHR ''{'' # t" by blast
  then obtain t' where start: "more = CHR ''{'' # t'"
    by (simp add: more_def ds join_Cons)
  have arr: "json_array data = CHR ''['' # (newline_indent 1 @ more)"
    using False by (simp add: json_array_def more_def)
  have ws: "skip_ws (newline_indent 1 @ more) = more"
    using start by (simp add: skip_ws_newline_indent skip_ws_nonws not_ws_chars)
  have els: "scan_elements more [] = Inr (data, [])"
    unfolding more_def using scan_elements_json [OF False assms, of "[]" "[]"] by simp
  have "scan_array (newline_indent 1 @ more) =
      (case more of [] \<Rightarrow> Inl JSONDecodeError
       | c # r \<Rightarrow> if c = CHR '']'' then Inr ([], r) else scan_elements more [])"
    by (simp only: scan_array_def ws)
  also have "\<dots> = scan_elements more []"
    by (simp add: start)
  finally have "scan_array (newline_indent 1 @ more) = Inr (data, [])"
    by (simp only: els)
  then show ?thesis
    unfolding arr by (simp add: json_loads_def skip_ws_nonws not_ws_chars skip_ws_def)
qed

definition section_keys :: "string list" where
  "section_keys = [''chapter'', ''chapter_title'', ''Section'', ''section_title'', ''section_desc'']"

lemma records_from_keys: "r \<in> set (records_from ch num ls) \<Longrightarrow> map fst r = section_keys"
proof (induction ch num ls rule: records_from.induct)
  case (1 ch num)
  then show ?case by simp
next
  case (2 ch num l ls)
  show ?case
  proof (cases "re_match chapter_pattern (strip l)")
    case (Some g)
    obtain g1 g2 where g: "g = (g1, g2)" by (cases g)
    from "2.prems" Some g have "r \<in> set (records_from (strip g2) (PyStr g1) ls)"
      by (simp add: records_from.simps(2) [of _ _ l])
    from "2.IH"(3) [OF Some [unfolded g] refl this] show ?thesis .
  next
    case None
    note c = this
    show ?thesis
    proof (cases "re_match section_pattern (strip l)")
      case None
      with "2.prems" c have "r \<in> set (records_from ch num ls)"
        by (simp add: records_from.simps(2) [of _ _ l])
      from "2.IH"(1) [OF c None this] show ?thesis .
    next
      case (Some g)
      obtain g1 g2 where g: "g = (g1, g2)" by (cases g)
      from "2.prems" c Some g
      have "map fst r = section_keys \<or>
            r \<in> set (records_from ch num (dropWhile (\<lambda>l. \<not> is_heading l) ls))"
        by (cases "body_text (takeWhile (\<lambda>l. \<not> is_heading l) ls) = []")
           (auto simp: records_from.simps(2) [of _ _ l] section_keys_def)
      with "2.IH"(2) [OF c Some [unfolded g] refl] show ?thesis by blast
    qed
  qed
qed

lemma parse_slpc_sections_keys:
  "r \<in> set (parse_slpc_sections text) \<Longrightarrow> map fst r = section_keys"
  by (simp add: parse_slpc_sections_def parse_lines_records records_from_keys)

lemma load_saved:
  "\<forall>r\<in>set records. distinct (map fst r) \<Longrightarrow>
   load_slpc_data path (save_to_json records path fs) = Inr records"
  by (simp add: load_slpc_data_def save_to_json_def json_loads_json_array)

section \<open>Rebuilding a collection\<close>

lemma build_records_adding:
  assumes env: "env ''SLPC_JSON_PATH'' = Some path" "env ''PERSIST_DIRECTORY_PATH'' = Some dir"
      "env ''SLPC_COLLECTION_NAME'' = Some name" "path \<noteq> []" "dir \<noteq> []" "name \<noteq> []"
    and recs: "list_all2 has_fields R F" "\<forall>r\<in>set R. map fst r = section_keys"
  shows "build_records env (adding_store rank) R st =
           Inr (st((dir, name) := st (dir, name) @ map spec_document_unit F))"
proof -
  from recs(2) have "\<forall>r\<in>set R. distinct (map fst r)" by (simp add: section_keys_def)
  then have ld: "load_slpc_data path (save_to_json R path Map.empty) = Inr R"
    by (rule load_saved)
  note pd = prepare_documents_fields [OF recs(1)]
  show ?thesis
    by (simp add: build_records_def build_slpc_vectordb_def env truthy_def ld pd adding_store_def)
qed

lemma search_adding:
  assumes "env ''PERSIST_DIRECTORY_PATH'' = Some dir" "env ''SLPC_COLLECTION_NAME'' = Some name"
      "dir \<noteq> []"
  shows "snd (search_slpc_sections env (adding_store rank) st query) =
           Inr (map format_result (take DEFAULT_TOP_K (rank query (st (dir, name)))))"
  by (simp add: search_slpc_sections_def assms truthy_def adding_store_def)

lemma rebuild_then_query_adding:
  assumes "env ''SLPC_JSON_PATH'' = Some path" "env ''PERSIST_DIRECTORY_PATH'' = Some dir"
      "env ''SLPC_COLLECTION_NAME'' = Some name" "path \<noteq> []" "dir \<noteq> []" "name \<noteq> []"
    and "list_all2 has_fields R1 F1" "\<forall>r\<in>set R1. map fst r = section_keys"
    and "list_all2 has_fields R2 F2" "\<forall>r\<in>set R2. map fst r = section_keys"
    and "st (dir, name) = []"
  shows "rebuild_then_query env (adding_store rank) st R1 R2 query =
           Inr (map format_result
                  (take DEFAULT_TOP_K
                     (rank query (map spec_document_unit F1 @ map spec_document_unit F2))))"
  using assms(11)
  by (simp add: rebuild_then_query_def
                build_records_adding [OF assms(1-6) assms(7,8)]
                build_records_adding [OF assms(1-6) assms(9,10)]
                search_adding [OF assms(2,3,5)])


text \<open>
  "The query returns only records originating from \<open>R\<close>": every result is the result of
  a document that \<open>prepare_documents\<close> builds from \<open>R\<close>.
\<close>

definition only_from_records :: "py_error + py_dict list \<Rightarrow> py_dict list \<Rightarrow> bool" where
  "only_from_records res R =
     (case res of
        Inl e \<Rightarrow> True
      | Inr results \<Rightarrow>
         (case prepare_documents R of
            Inl e \<Rightarrow> False
          | Inr docs \<Rightarrow> list_all (\<lambda>r. r \<in> set (map format_result docs)) results))"

definition example_environ :: environ where
  "example_environ =
     [''SLPC_JSON_PATH'' \<mapsto> ''slpc.json'', ''PERSIST_DIRECTORY_PATH'' \<mapsto> ''db'',
      ''SLPC_COLLECTION_NAME'' \<mapsto> ''test'']"

definition example_record_1 :: py_dict where
  "example_record_1 =
     [(''chapter'', PyStr ''I''), (''chapter_title'', PyStr ''General''),
      (''Section'', PyInt 1), (''section_title'', PyStr ''Short title''),
      (''section_desc'', PyStr ''This Code may be called the Penal Code.'')]"

definition example_record_2 :: py_dict where
  "example_record_2 =
     [(''chapter'', PyStr ''I''), (''chapter_title'', PyStr ''General''),
      (''Section'', PyInt 2), (''section_title'', PyStr ''Punishment''),
      (''section_desc'', PyStr ''Every person liable shall be punished.'')]"

lemma example_environ_set:
  "example_environ ''SLPC_JSON_PATH'' = Some ''slpc.json''"
  "example_environ ''PERSIST_DIRECTORY_PATH'' = Some ''db''"
  "example_environ ''SLPC_COLLECTION_NAME'' = Some ''test''"
  "''slpc.json'' \<noteq> []" "''db'' \<noteq> []" "''test'' \<noteq> []"
  by (simp_all add: example_environ_def)

lemma example_records_fields:
  "list_all2 has_fields [example_record_1]
     [(PyStr ''I'', ''General'', 1, ''Short title'', ''This Code may be called the Penal Code.'')]"
  "\<forall>r\<in>set [example_record_1]. map fst r = section_keys"
  "list_all2 has_fields [example_record_2]
     [(PyStr ''I'', ''General'', 2, ''Punishment'', ''Every person liable shall be punished.'')]"
  "\<forall>r\<in>set [example_record_2]. map fst r = section_keys"
  by (simp_all add: has_fields_def example_record_1_def example_record_2_def section_keys_def)

lemma str_int_1_2: "str_int 1 = ''1''" "str_int 2 = ''2''"
  by code_simp+

text \<open>
  The lines that the section pattern matches: when each of them has a non-blank line before
  the next heading, the records are, in order, those of the matched lines. This says
  nothing about a heading line that the pattern does not match.
\<close>

lemma matched_section_headings_all_emitted:
  assumes "well_formed_sections (split (CHR 0x0A) text)"
    and "length (filter is_section_heading (split (CHR 0x0A) text)) = N"
  shows "length (parse_slpc_sections text) = N \<and>
         map record_fields (parse_slpc_sections text) =
           map heading_fields (filter is_section_heading (split (CHR 0x0A) text)) \<and>
         (\<forall>r\<in>set (parse_slpc_sections text).
            \<exists>d. map_of r ''section_desc'' = Some (PyStr d) \<and> d \<noteq> [])"
proof -
  let ?ls = "split (CHR 0x0A) text"
  have m: "map record_fields (parse_slpc_sections text) = map heading_fields (filter is_section_heading ?ls)"
    using assms(1) by (simp add: parse_slpc_sections_def parse_lines_records records_from_well_formed)
  then have "length (map record_fields (parse_slpc_sections text)) =
             length (map heading_fields (filter is_section_heading ?ls))" by simp
  with assms(2) have "length (parse_slpc_sections text) = N" by simp
  moreover have "\<forall>r\<in>set (parse_slpc_sections text).
            \<exists>d. map_of r ''section_desc'' = Some (PyStr d) \<and> d \<noteq> []"
    by (auto simp: parse_slpc_sections_def parse_lines_records dest: records_from_desc)
  ultimately show ?thesis using m by blast
qed

section \<open>Properties of the section parser\<close>

text \<open>
  C1. On the example text of the specification the parser returns exactly two
  dictionaries, in order: section 1 "Short title" and section 2 "Punishment", both of
  chapter "I" with the chapter title "General", each with the body of its section.
\<close>

theorem example_text_two_records:
  "parse_slpc_sections ''CHAPTER I General\<newline>Section 1. Short title\<newline>This Code may be called the Penal Code.\<newline>Section 2. Punishment\<newline>Every person liable shall be punished.'' =
     [[(''chapter'', PyStr ''I''), (''chapter_title'', PyStr ''General''),
       (''Section'', PyInt 1), (''section_title'', PyStr ''Short title''),
       (''section_desc'', PyStr ''This Code may be called the Penal Code.'')],
      [(''chapter'', PyStr ''I''), (''chapter_title'', PyStr ''General''),
       (''Section'', PyInt 2), (''section_title'', PyStr ''Punishment''),
       (''section_desc'', PyStr ''Every person liable shall be punished.'')]]"
  by code_simp

text \<open>
  C2. Every dictionary the parser emits has a non-empty \<open>section_desc\<close>, and a section
  heading line that is directly followed by another heading line contributes no record:
  the output is the output of the lines without it.
\<close>

theorem emitted_bodies_nonempty:
  "(\<forall>r\<in>set (parse_slpc_sections text).
      \<exists>d. map_of r ''section_desc'' = Some (PyStr d) \<and> d \<noteq> []) \<and>
   (split (CHR 0x0A) text = pre @ h # nxt # post \<and> is_section_heading h \<and> is_heading nxt \<longrightarrow>
      parse_slpc_sections text = parse_lines (pre @ nxt # post))"
  by (auto simp: parse_slpc_sections_def parse_lines_records records_from_skip_empty
           dest: records_from_desc)

theorem emitted_bodies_nonempty_witness:
  "split (CHR 0x0A) ''Section 1. A\<newline>Section 2. B\<newline>body'' =
      [] @ ''Section 1. A'' # ''Section 2. B'' # [''body''] \<and>
   is_section_heading ''Section 1. A'' \<and> is_heading ''Section 2. B'' \<and>
   parse_slpc_sections ''Section 1. A\<newline>Section 2. B\<newline>body'' =
      parse_lines ([] @ ''Section 2. B'' # [''body'']) \<and>
   parse_slpc_sections ''Section 1. A\<newline>Section 2. B\<newline>body'' =
      [[(''chapter'', PyInt 0), (''chapter_title'', PyStr ''Unknown''),
        (''Section'', PyInt 2), (''section_title'', PyStr ''B''),
        (''section_desc'', PyStr ''body'')]] \<and>
   (\<exists>d. map_of (hd (parse_slpc_sections ''Section 1. A\<newline>Section 2. B\<newline>body''))
           ''section_desc'' = Some (PyStr d) \<and> d \<noteq> [])"
proof -
  let ?t = "''Section 1. A\<newline>Section 2. B\<newline>body''"
  have s: "split (CHR 0x0A) ?t = [] @ ''Section 1. A'' # ''Section 2. B'' # [''body'']"
    by code_simp
  have h1: "is_section_heading ''Section 1. A''" by code_simp
  have h2: "is_heading ''Section 2. B''" by code_simp
  have p: "parse_slpc_sections ?t =
      [[(''chapter'', PyInt 0), (''chapter_title'', PyStr ''Unknown''),
        (''Section'', PyInt 2), (''section_title'', PyStr ''B''),
        (''section_desc'', PyStr ''body'')]]"
    by code_simp
  note inst = emitted_bodies_nonempty [of ?t "[]" "''Section 1. A''" "''Section 2. B''" "[''body'']"]
  from inst s h1 h2 have e: "parse_slpc_sections ?t = parse_lines ([] @ ''Section 2. B'' # [''body''])"
    by blast
  from inst have "\<forall>r\<in>set (parse_slpc_sections ?t).
      \<exists>d. map_of r ''section_desc'' = Some (PyStr d) \<and> d \<noteq> []" by blast
  moreover from p have "hd (parse_slpc_sections ?t) \<in> set (parse_slpc_sections ?t)" by simp
  ultimately have b: "\<exists>d. map_of (hd (parse_slpc_sections ?t)) ''section_desc'' = Some (PyStr d) \<and> d \<noteq> []"
    by blast
  from s h1 h2 e p b show ?thesis by blast
qed

text \<open>
  C3. The section pattern ends in \<open>([^\n]+)\<close>, which needs at least one character, as
  the chapter pattern does. A section heading line without a title is therefore not
  recognised: "Section 5" followed by its body gives no record, although the text has one
  section heading with a body. "Section 365" followed by its body gives one record, whose
  number is 36 and whose title is "5". The bare numeral heading "365. Kidnapping" is not
  matched either. A text of three section headings with three bodies, the first and the
  third heading without a title, gives one record, and the third heading is part of its
  body.
\<close>

theorem section_heading_without_title_missed:
  "re_match section_pattern (strip ''Section 5'') = None \<and>
   parse_slpc_sections ''Section 5\<newline>Theft is punishable.'' = [] \<and>
   re_match section_pattern (strip ''365. Kidnapping'') = None \<and>
   parse_slpc_sections ''365. Kidnapping\<newline>Whoever kidnaps.'' = [] \<and>
   parse_slpc_sections ''Section 365\<newline>Whoever kidnaps.'' =
     [[(''chapter'', PyInt 0), (''chapter_title'', PyStr ''Unknown''),
       (''Section'', PyInt 36), (''section_title'', PyStr ''5''),
       (''section_desc'', PyStr ''Whoever kidnaps.'')]] \<and>
   parse_slpc_sections
     ''Section 1\<newline>First body.\<newline>Section 2. Punishment\<newline>Second body.\<newline>Section 3\<newline>Third body.'' =
     [[(''chapter'', PyInt 0), (''chapter_title'', PyStr ''Unknown''),
       (''Section'', PyInt 2), (''section_title'', PyStr ''Punishment''),
       (''section_desc'', PyStr ''Second body. Section 3 Third body.'')]]"
  by code_simp

text \<open>
  C7. The chapter pattern ends in \<open>([^\n]+)\<close>, which needs at least one character. On a
  chapter line without a title the engine backtracks into the numeral: "CHAPTER XVI" sets
  the chapter identifier to "XV" and the chapter title to "I", "CHAPTER 16" gives "1" and
  "6", and "CHAPTER I" is not recognised as a chapter heading at all.
\<close>

theorem chapter_without_title_misparsed:
  "re_match chapter_pattern (strip ''CHAPTER XVI'') = Some (''XV'', ''I'') \<and>
   re_match chapter_pattern (strip ''CHAPTER 16'') = Some (''1'', ''6'') \<and>
   re_match chapter_pattern (strip ''CHAPTER I'') = None \<and>
   parse_slpc_sections ''CHAPTER XVI\<newline>Section 365. Kidnapping\<newline>Whoever kidnaps.'' =
     [[(''chapter'', PyStr ''XV''), (''chapter_title'', PyStr ''I''),
       (''Section'', PyInt 365), (''section_title'', PyStr ''Kidnapping''),
       (''section_desc'', PyStr ''Whoever kidnaps.'')]]"
  by code_simp

text \<open>
  C9. The scan terminates on every text: the loop \<open>while i < len(lines)\<close> over
  \<open>scan_step\<close> returns, its result is the state \<open>scan\<close> computes, the parser's result
  is the section list of that state, and the final index is the number of lines. Each
  iteration strictly increases the index and keeps it within the lines; the inner loop
  started one past a heading returns an index at least one past the heading.
\<close>

theorem scan_terminates:
  "while_option (\<lambda>st. pos st < length (split (CHR 0x0A) text))
       (scan_step (split (CHR 0x0A) text)) initial_state
     = Some (scan (split (CHR 0x0A) text) initial_state) \<and>
   parse_slpc_sections text = sections (scan (split (CHR 0x0A) text) initial_state) \<and>
   pos (scan (split (CHR 0x0A) text) initial_state) = length (split (CHR 0x0A) text) \<and>
   (\<forall>st. pos st < length (split (CHR 0x0A) text) \<longrightarrow>
      pos st < pos (scan_step (split (CHR 0x0A) text) st) \<and>
      pos (scan_step (split (CHR 0x0A) text) st) \<le> length (split (CHR 0x0A) text)) \<and>
   (\<forall>i d. i + 1 \<le> fst (collect_desc (split (CHR 0x0A) text) (i + 1) d))"
  using scan_step_advances [of _ "split (CHR 0x0A) text"]
  by (simp add: while_scan parse_slpc_sections_def parse_lines_def scan_pos initial_state_def
                collect_desc_bounds)

theorem scan_terminates_witness:
  "while_option (\<lambda>st. pos st < length (split (CHR 0x0A) ''Section 1. A\<newline>body''))
       (scan_step (split (CHR 0x0A) ''Section 1. A\<newline>body'')) initial_state
     = Some (scan (split (CHR 0x0A) ''Section 1. A\<newline>body'') initial_state) \<and>
   pos initial_state < length (split (CHR 0x0A) ''Section 1. A\<newline>body'') \<and>
   pos initial_state < pos (scan_step (split (CHR 0x0A) ''Section 1. A\<newline>body'') initial_state) \<and>
   pos (scan (split (CHR 0x0A) ''Section 1. A\<newline>body'') initial_state) = 2"
proof -
  let ?ls = "split (CHR 0x0A) ''Section 1. A\<newline>body''"
  have l: "length ?ls = 2" by code_simp
  then have h: "pos initial_state < length ?ls" by (simp add: initial_state_def)
  note inst = scan_terminates [of "''Section 1. A\<newline>body''"]
  from inst h have "pos initial_state < pos (scan_step ?ls initial_state)" by blast
  with inst h l show ?thesis by simp
qed

text \<open>
  C10. The lines before the first chapter heading are scanned in the initial chapter
  context: when the lines of a text split into a part without chapter heading lines and a
  rest that is empty or starts with a chapter heading, the output is the records of the
  first part followed by the records of the rest, and every record of the first part has
  the integer 0 as its chapter and "Unknown" as its chapter title.
\<close>

theorem default_chapter_before_first_heading:
  assumes "split (CHR 0x0A) text = pre @ post"
    and "\<forall>l\<in>set pre. \<not> is_chapter_heading l"
    and "post = [] \<or> is_chapter_heading (hd post)"
  shows "parse_slpc_sections text = parse_lines pre @ parse_lines post \<and>
         (\<forall>r\<in>set (parse_lines pre).
            map_of r ''chapter'' = Some (PyInt 0) \<and>
            map_of r ''chapter_title'' = Some (PyStr ''Unknown''))"
proof -
  have "parse_slpc_sections text = parse_lines pre @ parse_lines post"
    using assms by (simp add: parse_slpc_sections_def parse_lines_records records_from_append)
  moreover have "\<forall>r\<in>set (parse_lines pre).
            map_of r ''chapter'' = Some (PyInt 0) \<and>
            map_of r ''chapter_title'' = Some (PyStr ''Unknown'')"
    using records_from_no_chapter [OF assms(2)] by (simp add: parse_lines_records)
  ultimately show ?thesis by blast
qed

theorem default_chapter_before_first_heading_witness:
  "split (CHR 0x0A) ''Section 1. A\<newline>one\<newline>CHAPTER I General\<newline>Section 2. B\<newline>two'' =
     [''Section 1. A'', ''one''] @ [''CHAPTER I General'', ''Section 2. B'', ''two''] \<and>
   \<not> is_chapter_heading ''Section 1. A'' \<and> \<not> is_chapter_heading ''one'' \<and>
   is_chapter_heading (hd [''CHAPTER I General'', ''Section 2. B'', ''two'']) \<and>
   parse_slpc_sections ''Section 1. A\<newline>one\<newline>CHAPTER I General\<newline>Section 2. B\<newline>two'' =
     parse_lines [''Section 1. A'', ''one''] @
     parse_lines [''CHAPTER I General'', ''Section 2. B'', ''two''] \<and>
   parse_lines [''Section 1. A'', ''one''] =
     [[(''chapter'', PyInt 0), (''chapter_title'', PyStr ''Unknown''),
       (''Section'', PyInt 1), (''section_title'', PyStr ''A''),
       (''section_desc'', PyStr ''one'')]] \<and>
   map_of (hd (parse_lines [''Section 1. A'', ''one''])) ''chapter'' = Some (PyInt 0) \<and>
   map_of (hd (parse_lines [''Section 1. A'', ''one''])) ''chapter_title'' = Some (PyStr ''Unknown'')"
proof -
  let ?t = "''Section 1. A\<newline>one\<newline>CHAPTER I General\<newline>Section 2. B\<newline>two''"
  let ?pre = "[''Section 1. A'', ''one'']"
  let ?post = "[''CHAPTER I General'', ''Section 2. B'', ''two'']"
  have s: "split (CHR 0x0A) ?t = ?pre @ ?post" by code_simp
  have n1: "\<not> is_chapter_heading ''Section 1. A''" by code_simp
  have n2: "\<not> is_chapter_heading ''one''" by code_simp
  have c: "is_chapter_heading (hd ?post)" by code_simp
  have p: "parse_lines ?pre =
     [[(''chapter'', PyInt 0), (''chapter_title'', PyStr ''Unknown''),
       (''Section'', PyInt 1), (''section_title'', PyStr ''A''),
       (''section_desc'', PyStr ''one'')]]" by code_simp
  from n1 n2 have np: "\<forall>l\<in>set ?pre. \<not> is_chapter_heading l" by simp
  from c have cp: "?post = [] \<or> is_chapter_heading (hd ?post)" by blast
  note inst = default_chapter_before_first_heading [OF s np cp]
  from p have "hd (parse_lines ?pre) \<in> set (parse_lines ?pre)" by simp
  with inst have "map_of (hd (parse_lines ?pre)) ''chapter'' = Some (PyInt 0)"
    "map_of (hd (parse_lines ?pre)) ''chapter_title'' = Some (PyStr ''Unknown'')"
    by blast+
  with inst s n1 n2 c p show ?thesis by blast
qed

section \<open>Properties of the builder and of the search tool\<close>

text \<open>
  C4. For section records, \<open>prepare_documents\<close> builds one document unit per record, in
  order: the display text is "Section n: title", a blank line, and the body; the metadata
  holds exactly the chapter, the chapter title, the section number and the section title
  of the record.
\<close>

theorem prepare_documents_units:
  "list_all2 has_fields slpc_data fs \<Longrightarrow>
   prepare_documents slpc_data = Inr (map spec_document_unit fs)"
  by (rule prepare_documents_fields)

theorem prepare_documents_units_witness:
  "list_all2 has_fields
     [[(''chapter'', PyStr ''I''), (''chapter_title'', PyStr ''General''),
       (''Section'', PyInt 12), (''section_title'', PyStr ''Short title''),
       (''section_desc'', PyStr ''Body.'')]]
     [(PyStr ''I'', ''General'', 12, ''Short title'', ''Body.'')] \<and>
   prepare_documents
     [[(''chapter'', PyStr ''I''), (''chapter_title'', PyStr ''General''),
       (''Section'', PyInt 12), (''section_title'', PyStr ''Short title''),
       (''section_desc'', PyStr ''Body.'')]] =
     Inr [\<lparr>page_content = ''Section 12: Short title'' @ [CHR 0x0A, CHR 0x0A] @ ''Body.'',
           metadata = [(''chapter'', PyStr ''I''), (''chapter_title'', PyStr ''General''),
                       (''section'', PyInt 12), (''section_title'', PyStr ''Short title'')]\<rparr>]"
proof -
  have h: "list_all2 has_fields
     [[(''chapter'', PyStr ''I''), (''chapter_title'', PyStr ''General''),
       (''Section'', PyInt 12), (''section_title'', PyStr ''Short title''),
       (''section_desc'', PyStr ''Body.'')]]
     [(PyStr ''I'', ''General'', 12, ''Short title'', ''Body.'')]"
    by (simp add: has_fields_def)
  have s: "str_int 12 = ''12''" by code_simp
  from prepare_documents_units [OF h] h s show ?thesis
    by (simp add: spec_document_unit_def)
qed

text \<open>
  C5. \<open>build_slpc_vectordb\<close> hands the documents to \<open>Chroma.from_documents\<close> and makes no
  call that deletes or resets a collection. On a store that adds the documents to an
  existing collection, two builds under one name from an empty collection are followed by
  queries over the documents of both builds: the query returns the first
  \<open>DEFAULT_TOP_K\<close> of the ranking of the documents of \<open>R1\<close> and \<open>R2\<close> together. With one
  record in each build the query returns both records, the one of the first build too.
\<close>

theorem rebuild_adds_to_collection:
  assumes "env ''SLPC_JSON_PATH'' = Some path" "env ''PERSIST_DIRECTORY_PATH'' = Some dir"
      "env ''SLPC_COLLECTION_NAME'' = Some name" "path \<noteq> []" "dir \<noteq> []" "name \<noteq> []"
    and "list_all2 has_fields R1 F1" "\<forall>r\<in>set R1. map fst r = section_keys"
    and "list_all2 has_fields R2 F2" "\<forall>r\<in>set R2. map fst r = section_keys"
    and "st (dir, name) = []"
  shows "rebuild_then_query env (adding_store rank) st R1 R2 query =
           Inr (map format_result
                  (take DEFAULT_TOP_K
                     (rank query (map spec_document_unit F1 @ map spec_document_unit F2))))"
  using assms by (rule rebuild_then_query_adding)

theorem rebuild_adds_to_collection_witness:
  "example_environ ''SLPC_JSON_PATH'' = Some ''slpc.json'' \<and>
   example_environ ''PERSIST_DIRECTORY_PATH'' = Some ''db'' \<and>
   example_environ ''SLPC_COLLECTION_NAME'' = Some ''test'' \<and>
   list_all2 has_fields [example_record_1]
     [(PyStr ''I'', ''General'', 1, ''Short title'', ''This Code may be called the Penal Code.'')] \<and>
   list_all2 has_fields [example_record_2]
     [(PyStr ''I'', ''General'', 2, ''Punishment'', ''Every person liable shall be punished.'')] \<and>
   map fst example_record_1 = section_keys \<and> map fst example_record_2 = section_keys \<and>
   rebuild_then_query example_environ (adding_store (\<lambda>q ds. rev ds)) (\<lambda>_. [])
       [example_record_1] [example_record_2] ''punishment for offenders'' =
     Inr (map format_result
            (take DEFAULT_TOP_K
               (rev (map spec_document_unit
                       [(PyStr ''I'', ''General'', 1, ''Short title'',
                         ''This Code may be called the Penal Code.'')] @
                     map spec_document_unit
                       [(PyStr ''I'', ''General'', 2, ''Punishment'',
                         ''Every person liable shall be punished.'')]))))"
proof -
  have e: "(\<lambda>_. []) (''db'', ''test'') = ([] :: document list)" by simp
  note inst = rebuild_adds_to_collection [OF example_environ_set example_records_fields e,
      of "\<lambda>q ds. rev ds" "''punishment for offenders''"]
  from example_records_fields(2,4) have k: "map fst example_record_1 = section_keys"
    "map fst example_record_2 = section_keys" by simp_all
  from inst example_environ_set(1-3) example_records_fields(1,3) k show ?thesis by blast
qed

theorem rebuild_returns_first_build:
  "rebuild_then_query example_environ (adding_store (\<lambda>q ds. ds)) (\<lambda>_. [])
       [example_record_1] [example_record_2] ''punishment for offenders'' =
     Inr [[(''section'', PyInt 1), (''section_title'', PyStr ''Short title''),
           (''chapter'', PyStr ''I''), (''chapter_title'', PyStr ''General''),
           (''content'', PyStr (''Section 1: Short title'' @ [CHR 0x0A, CHR 0x0A] @
                                ''This Code may be called the Penal Code.''))],
          [(''section'', PyInt 2), (''section_title'', PyStr ''Punishment''),
           (''chapter'', PyStr ''I''), (''chapter_title'', PyStr ''General''),
           (''content'', PyStr (''Section 2: Punishment'' @ [CHR 0x0A, CHR 0x0A] @
                                ''Every person liable shall be punished.''))]] \<and>
   \<not> only_from_records
       (rebuild_then_query example_environ (adding_store (\<lambda>q ds. ds)) (\<lambda>_. [])
          [example_record_1] [example_record_2] ''punishment for offenders'')
       [example_record_2]"
proof -
  have e: "(\<lambda>_. []) (''db'', ''test'') = ([] :: document list)" by simp
  note q = rebuild_then_query_adding [OF example_environ_set example_records_fields e,
      of "\<lambda>q ds. ds" "''punishment for offenders''"]
  note p = prepare_documents_fields [OF example_records_fields(3)]
  show ?thesis
    unfolding q only_from_records_def p
    by (simp add: spec_document_unit_def format_result_def dict_get_def DEFAULT_TOP_K_def
                  str_int_1_2)
qed

text \<open>
  C6. The search tool checks the storage location only. With the location set and the
  collection name unset it raises no configuration error of its own: it initialises the
  embeddings, opens the store with the collection name \<open>None\<close> and runs the search. The
  builder, on the same environment, stops with the configuration error before any call.
\<close>

theorem search_without_collection_name:
  "search_slpc_sections [''PERSIST_DIRECTORY_PATH'' \<mapsto> ''db''] accepting_backend () ''theft'' =
     ([InitEmbeddings, ChromaOpen None ''db'', SimilaritySearch ''theft'' 3], Inr []) \<and>
   build_slpc_vectordb [''PERSIST_DIRECTORY_PATH'' \<mapsto> ''db''] Map.empty accepting_backend () =
     ([], Inl EnvironmentError)"
  by (simp add: search_slpc_sections_def build_slpc_vectordb_def truthy_def accepting_backend_def
                DEFAULT_TOP_K_def)

text \<open>
  C8. Writing a collection of section records with \<open>save_to_json\<close> and reading the file
  back with \<open>load_slpc_data\<close> gives the collection again: the same records in the same
  order, each with the fields \<open>chapter\<close>, \<open>chapter_title\<close>, \<open>Section\<close>, \<open>section_title\<close>
  and \<open>section_desc\<close> and their values.
\<close>

theorem corpus_file_round_trip:
  assumes "\<forall>r\<in>set records. map fst r = section_keys"
  shows "load_slpc_data path (save_to_json records path fs) = Inr records"
proof -
  have "\<forall>r\<in>set records. distinct (map fst r)"
    using assms by (simp add: section_keys_def)
  then have "json_loads (json_array records) = Inr records"
    by (rule json_loads_json_array)
  then show ?thesis by (simp add: load_slpc_data_def save_to_json_def)
qed

theorem corpus_file_round_trip_witness:
  \<open>map fst [(''chapter'', PyInt 0), (''chapter_title'', PyStr ''Unknown''),
            (''Section'', PyInt 12), (''section_title'', PyStr ''Short title''),
            (''section_desc'', PyStr ''Body.'')] = section_keys \<and>
   json_array [[(''chapter'', PyInt 0), (''chapter_title'', PyStr ''Unknown''),
            (''Section'', PyInt 12), (''section_title'', PyStr ''Short title''),
            (''section_desc'', PyStr ''Body.'')]] =
     ''[\<newline>  {\<newline>    "chapter": 0,\<newline>    "chapter_title": "Unknown",\<newline>    "Section": 12,\<newline>    "section_title": "Short title",\<newline>    "section_desc": "Body."\<newline>  }\<newline>]'' \<and>
   load_slpc_data ''slpc.json''
     (save_to_json [[(''chapter'', PyInt 0), (''chapter_title'', PyStr ''Unknown''),
            (''Section'', PyInt 12), (''section_title'', PyStr ''Short title''),
            (''section_desc'', PyStr ''Body.'')]] ''slpc.json'' (\<lambda>_. None)) =
     Inr [[(''chapter'', PyInt 0), (''chapter_title'', PyStr ''Unknown''),
            (''Section'', PyInt 12), (''section_title'', PyStr ''Short title''),
            (''section_desc'', PyStr ''Body.'')]]\<close>
proof -
  let ?r = \<open>[(''chapter'', PyInt 0), (''chapter_title'', PyStr ''Unknown''),
            (''Section'', PyInt 12), (''section_title'', PyStr ''Short title''),
            (''section_desc'', PyStr ''Body.'')]\<close>
  have k: "map fst ?r = section_keys" by (simp add: section_keys_def)
  then have h: "\<forall>r\<in>set [?r]. map fst r = section_keys" by simp
  have t: \<open>json_array [?r] =
     ''[\<newline>  {\<newline>    "chapter": 0,\<newline>    "chapter_title": "Unknown",\<newline>    "Section": 12,\<newline>    "section_title": "Short title",\<newline>    "section_desc": "Body."\<newline>  }\<newline>]''\<close>
    by code_simp
  from corpus_file_round_trip [OF h, of "''slpc.json''" "\<lambda>_. None"] k t show ?thesis
    by blast
qed

end
